theory Spec2Isabelle
  imports Main "HOL-Library.Multiset"
begin

section \<open>Data model of \<^verbatim>\<open>graph.go\<close>\<close>

text \<open>
  Go strings are \<^typ>\<open>string\<close>. Node ids are \<^verbatim>\<open>int64\<close>; they are only
  compared, stored and incremented from 0 once per map entry, so they are modelled as
  \<^typ>\<open>int\<close> (a wrap-around would need \<open>2^63\<close> entries in memory).

  A Go map that the code iterates with \<^verbatim>\<open>range\<close> is an association list with
  distinct keys: the list order stands for the order in which \<^verbatim>\<open>range\<close> visits
  the entries, which Go leaves unspecified. A map that is only written and looked up by
  key is a HOL map.
\<close>

record VersionInfo =
  Timestamp :: string
  Dependencies :: "(string \<times> string) list"

record PackageInfo =
  Name :: string
  Versions :: "(string \<times> VersionInfo) list"

record nodeInfo =
  ni_id :: string
  ni_Name :: string
  ni_Version :: string
  ni_Timestamp :: string

definition NodeInfo :: "string \<Rightarrow> string \<Rightarrow> string \<Rightarrow> nodeInfo" where
  "NodeInfo name version timestamp =
     \<lparr>ni_id = name @ ''-'' @ version, ni_Name = name, ni_Version = version,
      ni_Timestamp = timestamp\<rparr>"

section \<open>Identity index\<close>

text \<open>
  \<^verbatim>\<open>CreateMap\<close>: the two nested loops thread the counter \<^verbatim>\<open>id\<close> and the map
  \<^verbatim>\<open>m\<close>. The assignment \<^verbatim>\<open>m[id] = ...\<close> replaces the value of an existing key
  and adds a new entry otherwise.
\<close>

fun map_store :: "'k \<Rightarrow> 'v \<Rightarrow> ('k \<times> 'v) list \<Rightarrow> ('k \<times> 'v) list" where
  "map_store k v [] = [(k, v)]"
| "map_store k v ((k', v') # m) =
     (if k = k' then (k, v) # m else (k', v') # map_store k v m)"

fun CreateMap_versions ::
  "string \<Rightarrow> (string \<times> VersionInfo) list \<Rightarrow> int \<times> (int \<times> nodeInfo) list
     \<Rightarrow> int \<times> (int \<times> nodeInfo) list" where
  "CreateMap_versions name [] (i, m) = (i, m)"
| "CreateMap_versions name ((packageVersion, versionInfo) # vs) (i, m) =
     CreateMap_versions name vs
       (i + 1, map_store i (NodeInfo name packageVersion (Timestamp versionInfo)) m)"

fun CreateMap_packages ::
  "PackageInfo list \<Rightarrow> int \<times> (int \<times> nodeInfo) list \<Rightarrow> int \<times> (int \<times> nodeInfo) list" where
  "CreateMap_packages [] s = s"
| "CreateMap_packages (packageInfo # ps) s =
     CreateMap_packages ps (CreateMap_versions (Name packageInfo) (Versions packageInfo) s)"

definition CreateMap :: "PackageInfo list \<Rightarrow> (int \<times> nodeInfo) list" where
  "CreateMap packagesInfo = snd (CreateMap_packages packagesInfo (0, []))"

text \<open>
  \<^verbatim>\<open>CreateNameToIDMap\<close> ranges over the id map and writes
  \<^verbatim>\<open>newMap[key.id] = id\<close>; a later write to the same key replaces the earlier one.
\<close>

fun CreateNameToIDMap_range ::
  "(int \<times> nodeInfo) list \<Rightarrow> (string \<rightharpoonup> int) \<Rightarrow> (string \<rightharpoonup> int)" where
  "CreateNameToIDMap_range [] newMap = newMap"
| "CreateNameToIDMap_range ((i, key) # m) newMap =
     CreateNameToIDMap_range m (newMap(ni_id key \<mapsto> i))"

definition CreateNameToIDMap :: "(int \<times> nodeInfo) list \<Rightarrow> (string \<rightharpoonup> int)" where
  "CreateNameToIDMap m = CreateNameToIDMap_range m Map.empty"

text \<open>
  \<^verbatim>\<open>CreateNameToVersionMap\<close>: \<^verbatim>\<open>newMap[name] = append(newMap[name], k)\<close>, where
  a missing key reads as the nil slice.
\<close>

definition slice_at :: "(string \<rightharpoonup> 'a list) \<Rightarrow> string \<Rightarrow> 'a list" where
  "slice_at m k = (case m k of None \<Rightarrow> [] | Some xs \<Rightarrow> xs)"

fun CreateNameToVersionMap_versions ::
  "string \<Rightarrow> (string \<times> VersionInfo) list \<Rightarrow> (string \<rightharpoonup> string list)
     \<Rightarrow> (string \<rightharpoonup> string list)" where
  "CreateNameToVersionMap_versions name [] newMap = newMap"
| "CreateNameToVersionMap_versions name ((k, _) # vs) newMap =
     CreateNameToVersionMap_versions name vs (newMap(name \<mapsto> slice_at newMap name @ [k]))"

fun CreateNameToVersionMap_range ::
  "PackageInfo list \<Rightarrow> (string \<rightharpoonup> string list) \<Rightarrow> (string \<rightharpoonup> string list)" where
  "CreateNameToVersionMap_range [] newMap = newMap"
| "CreateNameToVersionMap_range (v # ps) newMap =
     CreateNameToVersionMap_range ps
       (CreateNameToVersionMap_versions (Name v) (Versions v) newMap)"

definition CreateNameToVersionMap :: "PackageInfo list \<Rightarrow> (string \<rightharpoonup> string list)" where
  "CreateNameToVersionMap m = CreateNameToVersionMap_range m Map.empty"

text \<open>
  The (package, version) pairs of an input in the order \<^verbatim>\<open>CreateMap\<close> meets them,
  and the composite string \<^verbatim>\<open>name + "-" + version\<close> of a pair. These two definitions
  follow the wording of the specification; they are what the round trip of
  \<^verbatim>\<open>CreateNameToIDMap\<close> is compared against.
\<close>

definition package_versions :: "PackageInfo list \<Rightarrow> (string \<times> string) list" where
  "package_versions ps = concat (map (\<lambda>p. map (\<lambda>(v, vi). (Name p, v)) (Versions p)) ps)"

definition composite :: "string \<times> string \<Rightarrow> string" where
  "composite nv = fst nv @ ''-'' @ snd nv"

section \<open>Panics\<close>

text \<open>
  Every way in which the modelled code stops with a panic. A function that can panic
  returns \<open>Inl\<close> of the panic, and \<open>Inr\<close> of its result otherwise.
\<close>

datatype panic =
    NilDereference
  | ParseRangeError string
  | SelfEdge
  | NodeIDCollision int

type_synonym 'a result = "panic + 'a"

section \<open>Graph store\<close>

text \<open>
  The store is \<^verbatim>\<open>simple.DirectedGraph\<close> of the library gonum, which is not part of
  the repository. It is modelled by its documented contract: a set of node ids and a set
  of directed edges between ids;
  \<^item> \<^verbatim>\<open>AddNode\<close> panics when the id is already in the graph;
  \<^item> \<^verbatim>\<open>Node(id)\<close> returns the node with that id, or nil;
  \<^item> \<^verbatim>\<open>SetEdge\<close> reads the ids of both end nodes (a nil node is a nil dereference),
    panics when they are equal, adds end nodes that are missing and stores the edge,
    replacing an edge between the same ids.
  The nodes that \<^verbatim>\<open>CreateGraph\<close> stores carry nothing but their id, so a stored node
  is represented by its id.
\<close>

record DirectedGraph =
  dg_nodes :: "int set"
  dg_edges :: "(int \<times> int) set"

definition NewDirectedGraph :: DirectedGraph where
  "NewDirectedGraph = \<lparr>dg_nodes = {}, dg_edges = {}\<rparr>"

definition AddNode :: "DirectedGraph \<Rightarrow> int \<Rightarrow> DirectedGraph result" where
  "AddNode g n =
     (if n \<in> dg_nodes g then Inl (NodeIDCollision n)
      else Inr (g\<lparr>dg_nodes := insert n (dg_nodes g)\<rparr>))"

definition DirectedGraph_Node :: "DirectedGraph \<Rightarrow> int \<Rightarrow> int option" where
  "DirectedGraph_Node g n = (if n \<in> dg_nodes g then Some n else None)"

definition SetEdge :: "DirectedGraph \<Rightarrow> int option \<Rightarrow> int option \<Rightarrow> DirectedGraph result" where
  "SetEdge g F T =
     (case F of
        None \<Rightarrow> Inl NilDereference
      | Some fid \<Rightarrow>
          (case T of
             None \<Rightarrow> Inl NilDereference
           | Some tid \<Rightarrow>
               if fid = tid then Inl SelfEdge
               else Inr (g\<lparr>dg_nodes := insert tid (insert fid (dg_nodes g)),
                           dg_edges := insert (fid, tid) (dg_edges g)\<rparr>)))"

text \<open>\<^verbatim>\<open>CreateGraph\<close>: one \<^verbatim>\<open>AddNode(NewGraphNode(x))\<close> per key of the id map.\<close>

fun CreateGraph_range :: "(int \<times> nodeInfo) list \<Rightarrow> DirectedGraph \<Rightarrow> DirectedGraph result" where
  "CreateGraph_range [] graph = Inr graph"
| "CreateGraph_range ((x, _) # m) graph =
     (case AddNode graph x of
        Inl e \<Rightarrow> Inl e
      | Inr graph' \<Rightarrow> CreateGraph_range m graph')"

definition CreateGraph :: "(int \<times> nodeInfo) list \<Rightarrow> DirectedGraph result" where
  "CreateGraph inputMap = CreateGraph_range inputMap NewDirectedGraph"

section \<open>Edge resolver\<close>

text \<open>
  \<^verbatim>\<open>CreateEdges\<close> receives pointers to the graph, the package list and the two
  indices; the model passes the four objects as one state and returns the state after
  the call, so that a write to any of them would show.

  The version matcher is the library \<^verbatim>\<open>blang/semver\<close>, which is not part of the
  repository; its two functions are parameters of the model:
  \<^item> \<open>ParseRange\<close> returns an error (\<open>Inl\<close>) or the range as a predicate on versions;
  \<^item> \<open>Parse\<close> returns a version together with an optional error, as the Go function
    returns both values.
  A missing key of \<^verbatim>\<open>nameToID\<close> reads as 0, one of \<^verbatim>\<open>nameToVersion\<close> as the nil
  slice.
\<close>

record build_state =
  graph :: DirectedGraph
  inputList :: "PackageInfo list"
  nameToIDMap :: "string \<rightharpoonup> int"
  nameToVersionMap :: "string \<rightharpoonup> string list"

definition int_at :: "(string \<rightharpoonup> int) \<Rightarrow> string \<Rightarrow> int" where
  "int_at m k = (case m k of None \<Rightarrow> 0 | Some i \<Rightarrow> i)"

fun CreateEdges_versions ::
  "(string \<Rightarrow> 'ver \<times> string option) \<Rightarrow> ('ver \<Rightarrow> bool) \<Rightarrow> int \<Rightarrow> string \<Rightarrow> string list
     \<Rightarrow> build_state \<Rightarrow> build_state result" where
  "CreateEdges_versions Parse c i dependencyName [] s = Inr s"
| "CreateEdges_versions Parse c i dependencyName (v # vs) s =
     (let newVersion = fst (Parse v) in
      if c newVersion then
        (let dependencyNameVersionString = dependencyName @ ''-'' @ v;
             dependencyNode =
               DirectedGraph_Node (graph s) (int_at (nameToIDMap s) dependencyNameVersionString);
             packageNode = DirectedGraph_Node (graph s) i
         in case SetEdge (graph s) packageNode dependencyNode of
              Inl e \<Rightarrow> Inl e
            | Inr graph' \<Rightarrow>
                CreateEdges_versions Parse c i dependencyName vs (s\<lparr>graph := graph'\<rparr>))
      else CreateEdges_versions Parse c i dependencyName vs s)"

fun CreateEdges_dependencies ::
  "(string \<Rightarrow> string + ('ver \<Rightarrow> bool)) \<Rightarrow> (string \<Rightarrow> 'ver \<times> string option) \<Rightarrow> int
     \<Rightarrow> (string \<times> string) list \<Rightarrow> build_state \<Rightarrow> build_state result" where
  "CreateEdges_dependencies ParseRange Parse i [] s = Inr s"
| "CreateEdges_dependencies ParseRange Parse i ((dependencyName, dependencyVersion) # ds) s =
     (case ParseRange dependencyVersion of
        Inl err \<Rightarrow> Inl (ParseRangeError err)
      | Inr c \<Rightarrow>
          (case CreateEdges_versions Parse c i dependencyName
                  (slice_at (nameToVersionMap s) dependencyName) s of
             Inl e \<Rightarrow> Inl e
           | Inr s' \<Rightarrow> CreateEdges_dependencies ParseRange Parse i ds s'))"

fun CreateEdges_package ::
  "(string \<Rightarrow> string + ('ver \<Rightarrow> bool)) \<Rightarrow> (string \<Rightarrow> 'ver \<times> string option) \<Rightarrow> int
     \<Rightarrow> (string \<times> VersionInfo) list \<Rightarrow> build_state \<Rightarrow> build_state result" where
  "CreateEdges_package ParseRange Parse i [] s = Inr s"
| "CreateEdges_package ParseRange Parse i ((_, dependencyInfo) # vs) s =
     (case CreateEdges_dependencies ParseRange Parse i (Dependencies dependencyInfo) s of
        Inl e \<Rightarrow> Inl e
      | Inr s' \<Rightarrow> CreateEdges_package ParseRange Parse i vs s')"

text \<open>
  The outer loop: \<^verbatim>\<open>id\<close> is the index of the package in the slice, and it is this
  index that \<^verbatim>\<open>graph.Node(int64(id))\<close> looks up as the source node.
\<close>

fun CreateEdges_packages ::
  "(string \<Rightarrow> string + ('ver \<Rightarrow> bool)) \<Rightarrow> (string \<Rightarrow> 'ver \<times> string option) \<Rightarrow> int
     \<Rightarrow> PackageInfo list \<Rightarrow> build_state \<Rightarrow> build_state result" where
  "CreateEdges_packages ParseRange Parse i [] s = Inr s"
| "CreateEdges_packages ParseRange Parse i (packageInfo # ps) s =
     (case CreateEdges_package ParseRange Parse i (Versions packageInfo) s of
        Inl e \<Rightarrow> Inl e
      | Inr s' \<Rightarrow> CreateEdges_packages ParseRange Parse (i + 1) ps s')"

definition CreateEdges ::
  "(string \<Rightarrow> string + ('ver \<Rightarrow> bool)) \<Rightarrow> (string \<Rightarrow> 'ver \<times> string option)
     \<Rightarrow> build_state \<Rightarrow> build_state result" where
  "CreateEdges ParseRange Parse s = CreateEdges_packages ParseRange Parse 0 (inputList s) s"

text \<open>
  The build pass the specification describes: the id map and both indices are built
  from the input, the graph gets one node per id, and \<^verbatim>\<open>CreateEdges\<close> runs on them.
\<close>

definition frozen_state :: "PackageInfo list \<Rightarrow> build_state result" where
  "frozen_state ps =
     (case CreateGraph (CreateMap ps) of
        Inl e \<Rightarrow> Inl e
      | Inr g \<Rightarrow>
          Inr \<lparr>graph = g, inputList = ps,
               nameToIDMap = CreateNameToIDMap (CreateMap ps),
               nameToVersionMap = CreateNameToVersionMap ps\<rparr>)"

definition build ::
  "(string \<Rightarrow> string + ('ver \<Rightarrow> bool)) \<Rightarrow> (string \<Rightarrow> 'ver \<times> string option)
     \<Rightarrow> PackageInfo list \<Rightarrow> build_state result" where
  "build ParseRange Parse ps =
     (case frozen_state ps of
        Inl e \<Rightarrow> Inl e
      | Inr s \<Rightarrow> CreateEdges ParseRange Parse s)"

section \<open>Implicit graph\<close>

text \<open>
  A \<^verbatim>\<open>GraphNode\<close> holds its id and the slice of its neighbours, which are values of
  the interface \<^verbatim>\<open>graph.Node\<close>: pointers to other \<^verbatim>\<open>GraphNode\<close> objects (cycles
  included) or nodes of another implementation, of which only \<^verbatim>\<open>ID()\<close> is used.
  The objects live in a heap, a list addressed by position; a pointer outside the heap
  stands for nil, and reading through it is a nil dereference. A slice is nil or holds
  a list of elements, which may be empty; \<^verbatim>\<open>range\<close> and \<^verbatim>\<open>append\<close> see the elements,
  a test against nil sees the difference.
\<close>

datatype node = GraphNodePtr nat | OtherNode int

datatype slice = NilSlice | Slice (elems: "node list")
  where "elems NilSlice = []"

record GraphNode =
  gn_id :: int
  Neighbors :: slice

type_synonym heap = "GraphNode list"

type_synonym Edge = "node \<times> node"

definition deref :: "heap \<Rightarrow> nat \<Rightarrow> GraphNode option" where
  "deref h a = (if a < length h then Some (h ! a) else None)"

fun ID :: "heap \<Rightarrow> node \<Rightarrow> int option" where
  "ID h (GraphNodePtr a) = map_option gn_id (deref h a)"
| "ID h (OtherNode i) = Some i"

declare ID.simps [simp del]

definition NewGraphNode :: "heap \<Rightarrow> int \<Rightarrow> heap \<times> nat" where
  "NewGraphNode h i = (h @ [\<lparr>gn_id = i, Neighbors = NilSlice\<rparr>], length h)"

definition AddNeighbor :: "heap \<Rightarrow> nat \<Rightarrow> nat \<Rightarrow> heap result" where
  "AddNeighbor h g n =
     (case deref h g of
        None \<Rightarrow> Inl NilDereference
      | Some gn \<Rightarrow> Inr (h[g := gn\<lparr>Neighbors := Slice (elems (Neighbors gn) @ [GraphNodePtr n])\<rparr>]))"

text \<open>
  The ids that a search in heap \<open>h\<close> over the neighbour list \<open>ns\<close> can meet, and how
  many of them are not yet in \<open>seen\<close>. This number bounds the searches below.
\<close>

definition heap_ids :: "heap \<Rightarrow> node list \<Rightarrow> int set" where
  "heap_ids h ns = {k. \<exists>n \<in> set ns \<union> (\<Union>gn \<in> set h. set (elems (Neighbors gn))). ID h n = Some k}"

definition unseen :: "heap \<Rightarrow> node list \<Rightarrow> int set \<Rightarrow> nat" where
  "unseen h ns seen = card (heap_ids h ns - seen)"

lemma finite_heap_ids: "finite (heap_ids h ns)"
proof -
  have "heap_ids h ns \<subseteq> (\<lambda>n. the (ID h n)) ` (set ns \<union> (\<Union>gn \<in> set h. set (elems (Neighbors gn))))"
    by (force simp: heap_ids_def)
  then show ?thesis by (rule finite_subset) simp
qed

lemma heap_ids_deref: "deref h a = Some gn \<Longrightarrow> heap_ids h (elems (Neighbors gn)) = heap_ids h []"
  by (auto simp: heap_ids_def deref_def split: if_splits)

lemma unseen_deref: "deref h a = Some gn \<Longrightarrow> unseen h (elems (Neighbors gn)) seen = unseen h [] seen"
  by (simp add: unseen_def heap_ids_deref)

lemma heap_ids_tail: "heap_ids h ns \<subseteq> heap_ids h (n # ns)"
  by (auto simp: heap_ids_def)

lemma heap_ids_nil: "heap_ids h [] \<subseteq> heap_ids h ns"
  by (auto simp: heap_ids_def)

lemma heap_ids_head: "ID h n = Some k \<Longrightarrow> k \<in> heap_ids h (n # ns)"
  by (auto simp: heap_ids_def)

lemma unseen_tail: "unseen h ns seen \<le> unseen h (n # ns) seen"
  unfolding unseen_def
proof (rule card_mono)
  show "finite (heap_ids h (n # ns) - seen)" by (simp add: finite_heap_ids)
  show "heap_ids h ns - seen \<subseteq> heap_ids h (n # ns) - seen"
    using heap_ids_tail[of h ns n] by blast
qed

lemma unseen_mark:
  assumes "ID h n = Some k" and "k \<notin> seen" and "insert k seen \<subseteq> seen'"
  shows "unseen h ns seen' < unseen h (n # ns) seen"
  unfolding unseen_def
proof (rule psubset_card_mono)
  show "finite (heap_ids h (n # ns) - seen)" by (simp add: finite_heap_ids)
  have "k \<in> heap_ids h (n # ns) - seen" using assms heap_ids_head by auto
  moreover have "k \<notin> heap_ids h ns - seen'" using assms by auto
  moreover have "heap_ids h ns - seen' \<subseteq> heap_ids h (n # ns) - seen"
    using assms heap_ids_tail[of h ns n] by blast
  ultimately show "heap_ids h ns - seen' \<subset> heap_ids h (n # ns) - seen" by blast
qed

lemma unseen_mark_nil:
  assumes "ID h n = Some k" and "k \<notin> seen" and "insert k seen \<subseteq> seen'"
  shows "unseen h [] seen' < unseen h (n # ns) seen"
proof -
  have "unseen h [] seen' \<le> unseen h ns seen'"
    unfolding unseen_def
  proof (rule card_mono)
    show "finite (heap_ids h ns - seen')" by (simp add: finite_heap_ids)
    show "heap_ids h [] - seen' \<subseteq> heap_ids h ns - seen'"
      using heap_ids_nil[of h ns] by blast
  qed
  with unseen_mark[OF assms, of ns] show ?thesis by simp
qed

subsection \<open>\<^verbatim>\<open>Node\<close> and \<^verbatim>\<open>Has\<close>\<close>

text \<open>
  \<^verbatim>\<open>Has\<close> marks ids in the map \<^verbatim>\<open>seen\<close> that it shares with its caller; the model
  returns the map with the answer. \<open>Has_range\<close> is the loop over the neighbours.
\<close>

function Has :: "heap \<Rightarrow> nat \<Rightarrow> int set \<Rightarrow> int \<Rightarrow> (bool \<times> int set) result"
  and Has_range :: "heap \<Rightarrow> node list \<Rightarrow> int set \<Rightarrow> int \<Rightarrow> (bool \<times> int set) result"
  where
  "Has h g seen i =
     (case deref h g of
        None \<Rightarrow> Inl NilDereference
      | Some gn \<Rightarrow> Has_range h (elems (Neighbors gn)) seen i)"
| "Has_range h [] seen i = Inr (False, seen)"
| "Has_range h (n # ns) seen i =
     (case ID h n of
        None \<Rightarrow> Inl NilDereference
      | Some k \<Rightarrow>
          if k \<in> seen then Has_range h ns seen i
          else if k = i then Inr (True, insert k seen)
          else (case n of
                  GraphNodePtr a \<Rightarrow>
                    (case Has h a (insert k seen) i of
                       Inl e \<Rightarrow> Inl e
                     | Inr (True, seen') \<Rightarrow> Inr (True, seen')
                     | Inr (False, seen') \<Rightarrow> Has_range h ns seen' i)
                | OtherNode _ \<Rightarrow> Has_range h ns (insert k seen) i))"
  by pat_completeness auto

lemma Has_seen_grows_dom:
  "Has_Has_range_dom (Inl (h, g, seen, i)) \<Longrightarrow> Has h g seen i = Inr (b, seen') \<Longrightarrow>
     seen \<subseteq> seen'"
  "Has_Has_range_dom (Inr (h, ns, seen, i)) \<Longrightarrow> Has_range h ns seen i = Inr (b, seen') \<Longrightarrow>
     seen \<subseteq> seen'"
proof (induction arbitrary: b seen' and b seen' rule: Has_Has_range.pinduct)
  case (1 h g seen i)
  note eq = Has.psimps[OF "1.hyps"]
  from "1.prems" obtain gn where gn: "deref h g = Some gn"
    unfolding eq by (cases "deref h g") auto
  with "1.prems" have "Has_range h (elems (Neighbors gn)) seen i = Inr (b, seen')"
    unfolding eq by simp
  from "1.IH"[OF gn this] show ?case .
next
  case (2 h seen i)
  then show ?case by (simp add: Has_range.psimps(1))
next
  case (3 h n ns seen i)
  note eq = Has_range.psimps(2)[OF "3.hyps"]
  from "3.prems" obtain k where k: "ID h n = Some k"
    unfolding eq by (cases "ID h n") auto
  show ?case
  proof (cases "k \<in> seen")
    case True
    with "3.prems" k have "Has_range h ns seen i = Inr (b, seen')"
      unfolding eq by simp
    from "3.IH"(1)[OF k True this] show ?thesis .
  next
    case unseen: False
    show ?thesis
    proof (cases "k = i")
      case True
      with "3.prems" k unseen have "seen' = insert k seen"
        unfolding eq by simp
      then show ?thesis by blast
    next
      case False
      show ?thesis
      proof (cases n)
        case (OtherNode j)
        with "3.prems" k unseen False
        have "Has_range h ns (insert k seen) i = Inr (b, seen')"
          unfolding eq by simp
        from "3.IH"(4)[OF k unseen False OtherNode this] show ?thesis by blast
      next
        case (GraphNodePtr a)
        with "3.prems" k unseen False obtain b1 s1 where
          sub: "Has h a (insert k seen) i = Inr (b1, s1)"
          unfolding eq by (cases "Has h a (insert k seen) i") auto
        from "3.IH"(2)[OF k unseen False GraphNodePtr sub] have s1: "insert k seen \<subseteq> s1" .
        show ?thesis
        proof (cases b1)
          case True
          with "3.prems" k unseen False GraphNodePtr sub have "seen' = s1"
            unfolding eq by simp
          with s1 show ?thesis by blast
        next
          case b1: False
          with "3.prems" k unseen False GraphNodePtr sub
          have rest: "Has_range h ns s1 i = Inr (b, seen')"
            unfolding eq by simp
          from b1 have b1': "b1 = False" by simp
          from "3.IH"(3)[OF k unseen False GraphNodePtr sub refl b1' rest] s1
          show ?thesis by blast
        qed
      qed
    qed
  qed
qed

termination Has
  apply (relation "inv_image (less_than <*lex*> less_than)
    (\<lambda>x. case x of
       Inl (h, g, seen, i) \<Rightarrow>
         (unseen h [] seen, case deref h g of None \<Rightarrow> 0 | Some gn \<Rightarrow> Suc (length (elems (Neighbors gn))))
     | Inr (h, ns, seen, i) \<Rightarrow> (unseen h ns seen, length ns))")
  subgoal by (intro wf_inv_image wf_lex_prod wf_less_than)
  subgoal for h g seen i gn
    by (simp add: unseen_deref)
  subgoal for h n ns seen i k
    using unseen_tail[of h ns seen n] by (simp add: le_less)
  subgoal for h n ns seen i k a
    using unseen_mark_nil[of h n k seen "insert k seen" ns] by simp
  subgoal for h n ns seen i k a b x y
    using Has_seen_grows_dom(1)[of h a "insert k seen" i x y]
      unseen_mark[of h n k seen y ns] by simp
  subgoal for h n ns seen i k j
    using unseen_mark[of h n k seen "insert k seen" ns] by simp
  done

declare Has.simps [simp del]

text \<open>
  \<^verbatim>\<open>Node\<close>: the root itself, or a direct neighbour with the id, or the direct
  neighbour below which \<^verbatim>\<open>Has\<close> finds the id. \<open>None\<close> is the nil interface value.
\<close>

fun Node_range :: "heap \<Rightarrow> node list \<Rightarrow> int set \<Rightarrow> int \<Rightarrow> node option result" where
  "Node_range h [] seen i = Inr None"
| "Node_range h (n # ns) seen i =
     (case ID h n of
        None \<Rightarrow> Inl NilDereference
      | Some k \<Rightarrow>
          if k = i then Inr (Some n)
          else (case n of
                  GraphNodePtr a \<Rightarrow>
                    (case Has h a seen i of
                       Inl e \<Rightarrow> Inl e
                     | Inr (True, seen') \<Rightarrow> Inr (Some n)
                     | Inr (False, seen') \<Rightarrow> Node_range h ns seen' i)
                | OtherNode _ \<Rightarrow> Node_range h ns seen i))"

definition Node :: "heap \<Rightarrow> nat \<Rightarrow> int \<Rightarrow> node option result" where
  "Node h g i =
     (case deref h g of
        None \<Rightarrow> Inl NilDereference
      | Some gn \<Rightarrow>
          if i = gn_id gn then Inr (Some (GraphNodePtr g))
          else Node_range h (elems (Neighbors gn)) {gn_id gn} i)"

subsection \<open>\<^verbatim>\<open>From\<close> and \<^verbatim>\<open>FindNeighbors\<close>\<close>

text \<open>
  \<^verbatim>\<open>FindNeighbors\<close> returns the neighbour slice of the node with the id; the callers
  test the result against nil, so a node whose slice is nil counts as not found.
  \<^verbatim>\<open>From\<close> wraps a slice that is not nil in an iterator over its elements.
\<close>

function FindNeighbors :: "heap \<Rightarrow> nat \<Rightarrow> int \<Rightarrow> int set \<Rightarrow> (slice \<times> int set) result"
  and FindNeighbors_range ::
    "heap \<Rightarrow> node list \<Rightarrow> int \<Rightarrow> int set \<Rightarrow> (slice \<times> int set) result"
  where
  "FindNeighbors h g i seen =
     (case deref h g of
        None \<Rightarrow> Inl NilDereference
      | Some gn \<Rightarrow>
          if i = gn_id gn then Inr (Neighbors gn, seen)
          else FindNeighbors_range h (elems (Neighbors gn)) i seen)"
| "FindNeighbors_range h [] i seen = Inr (NilSlice, seen)"
| "FindNeighbors_range h (n # ns) i seen =
     (case ID h n of
        None \<Rightarrow> Inl NilDereference
      | Some k \<Rightarrow>
          if k \<in> seen then FindNeighbors_range h ns i seen
          else (case n of
                  GraphNodePtr a \<Rightarrow>
                    (case FindNeighbors h a i (insert k seen) of
                       Inl e \<Rightarrow> Inl e
                     | Inr (result, seen') \<Rightarrow>
                         if result \<noteq> NilSlice then Inr (result, seen')
                         else FindNeighbors_range h ns i seen')
                | OtherNode _ \<Rightarrow> FindNeighbors_range h ns i (insert k seen)))"
  by pat_completeness auto

lemma FindNeighbors_seen_grows_dom:
  "FindNeighbors_FindNeighbors_range_dom (Inl (h, g, i, seen)) \<Longrightarrow>
     FindNeighbors h g i seen = Inr (r, seen') \<Longrightarrow> seen \<subseteq> seen'"
  "FindNeighbors_FindNeighbors_range_dom (Inr (h, ns, i, seen)) \<Longrightarrow>
     FindNeighbors_range h ns i seen = Inr (r, seen') \<Longrightarrow> seen \<subseteq> seen'"
proof (induction arbitrary: r seen' and r seen' rule: FindNeighbors_FindNeighbors_range.pinduct)
  case (1 h g i seen)
  note eq = FindNeighbors.psimps[OF "1.hyps"]
  from "1.prems" obtain gn where gn: "deref h g = Some gn"
    unfolding eq by (cases "deref h g") auto
  show ?case
  proof (cases "i = gn_id gn")
    case True
    with "1.prems" gn show ?thesis unfolding eq by simp
  next
    case False
    with "1.prems" gn have "FindNeighbors_range h (elems (Neighbors gn)) i seen = Inr (r, seen')"
      unfolding eq by simp
    from "1.IH"[OF gn False this] show ?thesis .
  qed
next
  case (2 h i seen)
  then show ?case by (simp add: FindNeighbors_range.psimps(1))
next
  case (3 h n ns i seen)
  note eq = FindNeighbors_range.psimps(2)[OF "3.hyps"]
  from "3.prems" obtain k where k: "ID h n = Some k"
    unfolding eq by (cases "ID h n") auto
  show ?case
  proof (cases "k \<in> seen")
    case True
    with "3.prems" k have "FindNeighbors_range h ns i seen = Inr (r, seen')"
      unfolding eq by simp
    from "3.IH"(1)[OF k True this] show ?thesis .
  next
    case unseen: False
    show ?thesis
    proof (cases n)
      case (OtherNode j)
      with "3.prems" k unseen
      have "FindNeighbors_range h ns i (insert k seen) = Inr (r, seen')"
        unfolding eq by simp
      from "3.IH"(4)[OF k unseen OtherNode this] show ?thesis by blast
    next
      case (GraphNodePtr a)
      with "3.prems" k unseen obtain r1 s1 where
        sub: "FindNeighbors h a i (insert k seen) = Inr (r1, s1)"
        unfolding eq by (cases "FindNeighbors h a i (insert k seen)") auto
      from "3.IH"(2)[OF k unseen GraphNodePtr sub] have s1: "insert k seen \<subseteq> s1" .
      show ?thesis
      proof (cases "r1 \<noteq> NilSlice")
        case True
        with "3.prems" k unseen GraphNodePtr sub have "seen' = s1"
          unfolding eq by simp
        with s1 show ?thesis by blast
      next
        case False
        with "3.prems" k unseen GraphNodePtr sub
        have rest: "FindNeighbors_range h ns i s1 = Inr (r, seen')"
          unfolding eq by simp
        from "3.IH"(3)[OF k unseen GraphNodePtr sub refl False rest] s1
        show ?thesis by blast
      qed
    qed
  qed
qed

termination FindNeighbors
  apply (relation "inv_image (less_than <*lex*> less_than)
    (\<lambda>x. case x of
       Inl (h, g, i, seen) \<Rightarrow>
         (unseen h [] seen, case deref h g of None \<Rightarrow> 0 | Some gn \<Rightarrow> Suc (length (elems (Neighbors gn))))
     | Inr (h, ns, i, seen) \<Rightarrow> (unseen h ns seen, length ns))")
  subgoal by (intro wf_inv_image wf_lex_prod wf_less_than)
  subgoal for h g i seen gn
    by (simp add: unseen_deref)
  subgoal for h n ns i seen k
    using unseen_tail[of h ns seen n] by (simp add: le_less)
  subgoal for h n ns i seen k a
    using unseen_mark_nil[of h n k seen "insert k seen" ns] by simp
  subgoal for h n ns i seen k a b x y
    using FindNeighbors_seen_grows_dom(1)[of h a i "insert k seen" x y]
      unseen_mark[of h n k seen y ns] by simp
  subgoal for h n ns i seen k j
    using unseen_mark[of h n k seen "insert k seen" ns] by simp
  done

declare FindNeighbors.simps [simp del]

fun From_range :: "heap \<Rightarrow> node list \<Rightarrow> int \<Rightarrow> int set \<Rightarrow> node list option result" where
  "From_range h [] i seen = Inr None"
| "From_range h (n # ns) i seen =
     (case ID h n of
        None \<Rightarrow> Inl NilDereference
      | Some k \<Rightarrow>
          (case n of
             GraphNodePtr a \<Rightarrow>
               (case FindNeighbors h a i (insert k seen) of
                  Inl e \<Rightarrow> Inl e
                | Inr (result, seen') \<Rightarrow>
                    if result \<noteq> NilSlice then Inr (Some (elems result))
                    else From_range h ns i seen')
           | OtherNode _ \<Rightarrow> From_range h ns i (insert k seen)))"

definition From :: "heap \<Rightarrow> nat \<Rightarrow> int \<Rightarrow> node list option result" where
  "From h g i =
     (case deref h g of
        None \<Rightarrow> Inl NilDereference
      | Some gn \<Rightarrow>
          if i = gn_id gn then Inr (Some (elems (Neighbors gn)))
          else From_range h (elems (Neighbors gn)) i {gn_id gn})"

subsection \<open>\<^verbatim>\<open>EdgeBetween\<close> and \<^verbatim>\<open>edgeBetween\<close>\<close>

text \<open>
  Both functions start with the same loop over the neighbours of a node \<open>g\<close> whose id
  is \<open>uid\<close> or \<open>vid\<close>: the first neighbour whose id is \<open>uid\<close> or \<open>vid\<close> gives the
  edge \<^verbatim>\<open>simple.Edge{F: g, T: n}\<close>, and the result is nil when there is none.
\<close>

fun anchor_range :: "heap \<Rightarrow> nat \<Rightarrow> node list \<Rightarrow> int \<Rightarrow> int \<Rightarrow> Edge option result" where
  "anchor_range h g [] uid vid = Inr None"
| "anchor_range h g (n # ns) uid vid =
     (case ID h n of
        None \<Rightarrow> Inl NilDereference
      | Some k \<Rightarrow>
          if k = uid \<or> k = vid then Inr (Some (GraphNodePtr g, n))
          else anchor_range h g ns uid vid)"

function edgeBetween ::
    "heap \<Rightarrow> nat \<Rightarrow> int \<Rightarrow> int \<Rightarrow> int set \<Rightarrow> (Edge option \<times> int set) result"
  and edgeBetween_range ::
    "heap \<Rightarrow> node list \<Rightarrow> int \<Rightarrow> int \<Rightarrow> int set \<Rightarrow> (Edge option \<times> int set) result"
  where
  "edgeBetween h g uid vid seen =
     (case deref h g of
        None \<Rightarrow> Inl NilDereference
      | Some gn \<Rightarrow>
          if uid = gn_id gn \<or> vid = gn_id gn
          then (case anchor_range h g (elems (Neighbors gn)) uid vid of
                  Inl e \<Rightarrow> Inl e
                | Inr result \<Rightarrow> Inr (result, seen))
          else edgeBetween_range h (elems (Neighbors gn)) uid vid seen)"
| "edgeBetween_range h [] uid vid seen = Inr (None, seen)"
| "edgeBetween_range h (n # ns) uid vid seen =
     (case ID h n of
        None \<Rightarrow> Inl NilDereference
      | Some k \<Rightarrow>
          if k \<in> seen then edgeBetween_range h ns uid vid seen
          else (case n of
                  GraphNodePtr a \<Rightarrow>
                    (case edgeBetween h a uid vid (insert k seen) of
                       Inl e \<Rightarrow> Inl e
                     | Inr (Some result, seen') \<Rightarrow> Inr (Some result, seen')
                     | Inr (None, seen') \<Rightarrow> edgeBetween_range h ns uid vid seen')
                | OtherNode _ \<Rightarrow> edgeBetween_range h ns uid vid (insert k seen)))"
  by pat_completeness auto

lemma edgeBetween_seen_grows_dom:
  "edgeBetween_edgeBetween_range_dom (Inl (h, g, uid, vid, seen)) \<Longrightarrow>
     edgeBetween h g uid vid seen = Inr (r, seen') \<Longrightarrow> seen \<subseteq> seen'"
  "edgeBetween_edgeBetween_range_dom (Inr (h, ns, uid, vid, seen)) \<Longrightarrow>
     edgeBetween_range h ns uid vid seen = Inr (r, seen') \<Longrightarrow> seen \<subseteq> seen'"
proof (induction arbitrary: r seen' and r seen' rule: edgeBetween_edgeBetween_range.pinduct)
  case (1 h g uid vid seen)
  note eq = edgeBetween.psimps[OF "1.hyps"]
  from "1.prems" obtain gn where gn: "deref h g = Some gn"
    unfolding eq by (cases "deref h g") auto
  show ?case
  proof (cases "uid = gn_id gn \<or> vid = gn_id gn")
    case True
    with "1.prems" gn have "seen' = seen"
      unfolding eq by (cases "anchor_range h g (elems (Neighbors gn)) uid vid") auto
    then show ?thesis by simp
  next
    case False
    with "1.prems" gn have "edgeBetween_range h (elems (Neighbors gn)) uid vid seen = Inr (r, seen')"
      unfolding eq by simp
    from "1.IH"[OF gn False this] show ?thesis .
  qed
next
  case (2 h uid vid seen)
  then show ?case by (simp add: edgeBetween_range.psimps(1))
next
  case (3 h n ns uid vid seen)
  note eq = edgeBetween_range.psimps(2)[OF "3.hyps"]
  from "3.prems" obtain k where k: "ID h n = Some k"
    unfolding eq by (cases "ID h n") auto
  show ?case
  proof (cases "k \<in> seen")
    case True
    with "3.prems" k have "edgeBetween_range h ns uid vid seen = Inr (r, seen')"
      unfolding eq by simp
    from "3.IH"(1)[OF k True this] show ?thesis .
  next
    case unseen: False
    show ?thesis
    proof (cases n)
      case (OtherNode j)
      with "3.prems" k unseen
      have "edgeBetween_range h ns uid vid (insert k seen) = Inr (r, seen')"
        unfolding eq by simp
      from "3.IH"(4)[OF k unseen OtherNode this] show ?thesis by blast
    next
      case (GraphNodePtr a)
      with "3.prems" k unseen obtain r1 s1 where
        sub: "edgeBetween h a uid vid (insert k seen) = Inr (r1, s1)"
        unfolding eq by (cases "edgeBetween h a uid vid (insert k seen)") auto
      from "3.IH"(2)[OF k unseen GraphNodePtr sub] have s1: "insert k seen \<subseteq> s1" .
      show ?thesis
      proof (cases r1)
        case (Some e)
        with "3.prems" k unseen GraphNodePtr sub have "seen' = s1"
          unfolding eq by simp
        with s1 show ?thesis by blast
      next
        case None
        with "3.prems" k unseen GraphNodePtr sub
        have rest: "edgeBetween_range h ns uid vid s1 = Inr (r, seen')"
          unfolding eq by simp
        from "3.IH"(3)[OF k unseen GraphNodePtr sub refl None rest] s1
        show ?thesis by blast
      qed
    qed
  qed
qed

termination edgeBetween
  apply (relation "inv_image (less_than <*lex*> less_than)
    (\<lambda>x. case x of
       Inl (h, g, uid, vid, seen) \<Rightarrow>
         (unseen h [] seen, case deref h g of None \<Rightarrow> 0 | Some gn \<Rightarrow> Suc (length (elems (Neighbors gn))))
     | Inr (h, ns, uid, vid, seen) \<Rightarrow> (unseen h ns seen, length ns))")
  subgoal by (intro wf_inv_image wf_lex_prod wf_less_than)
  subgoal for h g uid vid seen gn
    by (simp add: unseen_deref)
  subgoal for h n ns uid vid seen k
    using unseen_tail[of h ns seen n] by (simp add: le_less)
  subgoal for h n ns uid vid seen k a
    using unseen_mark_nil[of h n k seen "insert k seen" ns] by simp
  subgoal for h n ns uid vid seen k a b x y
    using edgeBetween_seen_grows_dom(1)[of h a uid vid "insert k seen" x y]
      unseen_mark[of h n k seen y ns] by simp
  subgoal for h n ns uid vid seen k j
    using unseen_mark[of h n k seen "insert k seen" ns] by simp
  done

declare edgeBetween.simps [simp del]

fun EdgeBetween_range :: "heap \<Rightarrow> node list \<Rightarrow> int \<Rightarrow> int \<Rightarrow> int set \<Rightarrow> Edge option result" where
  "EdgeBetween_range h [] uid vid seen = Inr None"
| "EdgeBetween_range h (n # ns) uid vid seen =
     (case ID h n of
        None \<Rightarrow> Inl NilDereference
      | Some k \<Rightarrow>
          (case n of
             GraphNodePtr a \<Rightarrow>
               (case edgeBetween h a uid vid (insert k seen) of
                  Inl e \<Rightarrow> Inl e
                | Inr (Some result, seen') \<Rightarrow> Inr (Some result)
                | Inr (None, seen') \<Rightarrow> EdgeBetween_range h ns uid vid seen')
           | OtherNode _ \<Rightarrow> EdgeBetween_range h ns uid vid (insert k seen)))"

definition EdgeBetween :: "heap \<Rightarrow> nat \<Rightarrow> int \<Rightarrow> int \<Rightarrow> Edge option result" where
  "EdgeBetween h g uid vid =
     (case deref h g of
        None \<Rightarrow> Inl NilDereference
      | Some gn \<Rightarrow>
          if uid = gn_id gn \<or> vid = gn_id gn then anchor_range h g (elems (Neighbors gn)) uid vid
          else EdgeBetween_range h (elems (Neighbors gn)) uid vid {gn_id gn})"

subsection \<open>\<^verbatim>\<open>Nodes\<close> and \<^verbatim>\<open>nodes\<close>\<close>

text \<open>
  \<^verbatim>\<open>nodes\<close> skips the neighbours whose id is in \<^verbatim>\<open>seen\<close> but never writes to the
  map, so nothing bounds its recursion. The model counts the depth of the calls in
  \<open>fuel\<close>: \<open>None\<close> says that the call needs a deeper stack than \<open>fuel\<close>, and a call
  that is \<open>None\<close> for every \<open>fuel\<close> does not return.
\<close>

fun nodes :: "nat \<Rightarrow> heap \<Rightarrow> nat \<Rightarrow> node list \<Rightarrow> int set \<Rightarrow> node list result option"
  and nodes_range ::
    "nat \<Rightarrow> heap \<Rightarrow> node list \<Rightarrow> node list \<Rightarrow> int set \<Rightarrow> node list result option"
  where
  "nodes 0 h g dst seen = None"
| "nodes (Suc fuel) h g dst seen =
     (case deref h g of
        None \<Rightarrow> Some (Inl NilDereference)
      | Some gn \<Rightarrow> nodes_range fuel h (elems (Neighbors gn)) dst seen)"
| "nodes_range fuel h [] dst seen = Some (Inr dst)"
| "nodes_range fuel h (n # ns) dst seen =
     (case ID h n of
        None \<Rightarrow> Some (Inl NilDereference)
      | Some k \<Rightarrow>
          if k \<in> seen then nodes_range fuel h ns dst seen
          else (case n of
                  GraphNodePtr a \<Rightarrow>
                    (case nodes fuel h a (dst @ [n]) seen of
                       None \<Rightarrow> None
                     | Some (Inl e) \<Rightarrow> Some (Inl e)
                     | Some (Inr dst') \<Rightarrow> nodes_range fuel h ns dst' seen)
                | OtherNode _ \<Rightarrow> nodes_range fuel h ns (dst @ [n]) seen))"

fun Nodes_range ::
  "nat \<Rightarrow> heap \<Rightarrow> node list \<Rightarrow> node list \<Rightarrow> int set \<Rightarrow> node list result option" where
  "Nodes_range fuel h [] out seen = Some (Inr out)"
| "Nodes_range fuel h (n # ns) out seen =
     (case ID h n of
        None \<Rightarrow> Some (Inl NilDereference)
      | Some k \<Rightarrow>
          (case n of
             GraphNodePtr a \<Rightarrow>
               (case nodes fuel h a (out @ [n]) (insert k seen) of
                  None \<Rightarrow> None
                | Some (Inl e) \<Rightarrow> Some (Inl e)
                | Some (Inr out') \<Rightarrow> Nodes_range fuel h ns out' (insert k seen))
           | OtherNode _ \<Rightarrow> Nodes_range fuel h ns (out @ [n]) (insert k seen)))"

definition Nodes :: "nat \<Rightarrow> heap \<Rightarrow> nat \<Rightarrow> node list result option" where
  "Nodes fuel h g =
     (case deref h g of
        None \<Rightarrow> Some (Inl NilDereference)
      | Some gn \<Rightarrow> Nodes_range fuel h (elems (Neighbors gn)) [GraphNodePtr g] {gn_id gn})"

subsection \<open>What the search of \<^verbatim>\<open>EdgeBetween\<close> can discover\<close>




text \<open>The node at \<open>b\<close> has the id \<open>uid\<close> and a direct neighbour with the id \<open>vid\<close>.\<close>

definition has_link :: "heap \<Rightarrow> nat \<Rightarrow> int \<Rightarrow> int \<Rightarrow> bool" where
  "has_link h b uid vid =
     (case deref h b of
        None \<Rightarrow> False
      | Some gn \<Rightarrow> gn_id gn = uid \<and> Some vid \<in> ID h ` set (elems (Neighbors gn)))"





section \<open>Example registries\<close>

text \<open>
  The scenario of the specification: package \<open>A\<close> with version \<open>1.0.0\<close>, which
  depends on \<open>B\<close> from \<open>1.0.0\<close> up to \<open>2.0.0\<close> (the range is written in the
  syntax of the matcher library), and package \<open>B\<close> with versions \<open>1.0.0\<close> and
  \<open>2.0.0\<close>.
\<close>

definition registry_AB :: "PackageInfo list" where
  "registry_AB =
     [\<lparr>Name = ''A'', Versions =
         [(''1.0.0'', \<lparr>Timestamp = ''t0'', Dependencies = [(''B'', ''>=1.0.0 <2.0.0'')]\<rparr>)]\<rparr>,
      \<lparr>Name = ''B'', Versions =
         [(''1.0.0'', \<lparr>Timestamp = ''t1'', Dependencies = []\<rparr>),
          (''2.0.0'', \<lparr>Timestamp = ''t2'', Dependencies = []\<rparr>)]\<rparr>]"

text \<open>Two packages whose names and versions contain the separator \<open>-\<close>.\<close>

definition registry_dash :: "PackageInfo list" where
  "registry_dash =
     [\<lparr>Name = ''a-b'', Versions = [(''1'', \<lparr>Timestamp = ''t0'', Dependencies = []\<rparr>)]\<rparr>,
      \<lparr>Name = ''a'', Versions = [(''b-1'', \<lparr>Timestamp = ''t1'', Dependencies = []\<rparr>)]\<rparr>]"

text \<open>
  Package \<open>B\<close> with two versions comes first, then \<open>A\<close>, whose only version depends
  on \<open>C\<close> with the range \<^verbatim>\<open>>=0.0.0\<close>, then \<open>C\<close> with one version.
\<close>

definition registry_BAC :: "PackageInfo list" where
  "registry_BAC =
     [\<lparr>Name = ''B'', Versions =
         [(''1.0.0'', \<lparr>Timestamp = ''t0'', Dependencies = []\<rparr>),
          (''2.0.0'', \<lparr>Timestamp = ''t1'', Dependencies = []\<rparr>)]\<rparr>,
      \<lparr>Name = ''A'', Versions =
         [(''1.0.0'', \<lparr>Timestamp = ''t2'', Dependencies = [(''C'', ''>=0.0.0'')]\<rparr>)]\<rparr>,
      \<lparr>Name = ''C'', Versions =
         [(''1.0.0'', \<lparr>Timestamp = ''t3'', Dependencies = []\<rparr>)]\<rparr>]"

text \<open>
  Four packages with one version each, so that node ids and package positions agree.
  Package \<open>A\<close>, at position 1, declares three constraints: on \<open>C\<close> with a well-formed
  range, on \<open>B\<close> with a malformed range, and on \<open>D\<close> with a well-formed range.
\<close>

definition bad_range_deps :: VersionInfo where
  "bad_range_deps =
     \<lparr>Timestamp = ''t1'',
      Dependencies = [(''C'', ''>=0.0.0''), (''B'', ''>>1''), (''D'', ''>=0.0.0'')]\<rparr>"

definition registry_bad_range :: "PackageInfo list" where
  "registry_bad_range =
     [\<lparr>Name = ''C'', Versions = [(''1.0.0'', \<lparr>Timestamp = ''t0'', Dependencies = []\<rparr>)]\<rparr>,
      \<lparr>Name = ''A'', Versions = [(''1.0.0'', bad_range_deps)]\<rparr>,
      \<lparr>Name = ''B'', Versions = [(''1.0.0'', \<lparr>Timestamp = ''t2'', Dependencies = []\<rparr>)]\<rparr>,
      \<lparr>Name = ''D'', Versions = [(''1.0.0'', \<lparr>Timestamp = ''t3'', Dependencies = []\<rparr>)]\<rparr>]"

text \<open>Package \<open>B\<close> has published a version whose string is not a semantic version.\<close>

definition registry_bad_version :: "PackageInfo list" where
  "registry_bad_version =
     [\<lparr>Name = ''A'', Versions =
         [(''1.0.0'', \<lparr>Timestamp = ''t0'', Dependencies = [(''B'', ''>=0.0.0'')]\<rparr>)]\<rparr>,
      \<lparr>Name = ''B'', Versions = [(''one'', \<lparr>Timestamp = ''t1'', Dependencies = []\<rparr>)]\<rparr>]"

text \<open>The edges of a finished build.\<close>

definition edges_of :: "build_state result \<Rightarrow> (int \<times> int) set result" where
  "edges_of r = (case r of Inl e \<Rightarrow> Inl e | Inr s \<Rightarrow> Inr (dg_edges (graph s)))"

text \<open>The three read-only inputs of \<^verbatim>\<open>CreateEdges\<close> are the same in two states.\<close>

definition same_inputs :: "build_state \<Rightarrow> build_state \<Rightarrow> bool" where
  "same_inputs s s' \<longleftrightarrow>
     inputList s' = inputList s \<and> nameToIDMap s' = nameToIDMap s \<and>
     nameToVersionMap s' = nameToVersionMap s"

text \<open>The state \<^verbatim>\<open>CreateEdges\<close> starts from on the scenario of the specification.\<close>

definition state_AB :: build_state where
  "state_AB =
     \<lparr>graph = \<lparr>dg_nodes = {0, 1, 2}, dg_edges = {}\<rparr>, inputList = registry_AB,
      nameToIDMap = CreateNameToIDMap (CreateMap registry_AB),
      nameToVersionMap = CreateNameToVersionMap registry_AB\<rparr>"

text \<open>The state \<^verbatim>\<open>CreateEdges\<close> starts from on the registry with the malformed range.\<close>

definition state_bad_range :: build_state where
  "state_bad_range =
     \<lparr>graph = \<lparr>dg_nodes = {0, 1, 2, 3}, dg_edges = {}\<rparr>, inputList = registry_bad_range,
      nameToIDMap = CreateNameToIDMap (CreateMap registry_bad_range),
      nameToVersionMap = CreateNameToVersionMap registry_bad_range\<rparr>"

text \<open>The state \<^verbatim>\<open>CreateEdges\<close> starts from on the registry with the malformed version.\<close>

definition state_bad_version :: build_state where
  "state_bad_version =
     \<lparr>graph = \<lparr>dg_nodes = {0, 1}, dg_edges = {}\<rparr>, inputList = registry_bad_version,
      nameToIDMap = CreateNameToIDMap (CreateMap registry_bad_version),
      nameToVersionMap = CreateNameToVersionMap registry_bad_version\<rparr>"

section \<open>Example heaps\<close>

text \<open>The cycle \<open>0 \<rightarrow> 1 \<rightarrow> 2 \<rightarrow> 0\<close>; the node at address \<open>a\<close> has id \<open>a\<close>.\<close>

definition cycle3 :: heap where
  "cycle3 =
     [\<lparr>gn_id = 0, Neighbors = Slice [GraphNodePtr 1]\<rparr>,
      \<lparr>gn_id = 1, Neighbors = Slice [GraphNodePtr 2]\<rparr>,
      \<lparr>gn_id = 2, Neighbors = Slice [GraphNodePtr 0]\<rparr>]"

text \<open>The diamond \<open>0 \<rightarrow> 1 \<rightarrow> 3\<close>, \<open>0 \<rightarrow> 2 \<rightarrow> 3\<close>: two paths lead to node 3.\<close>

definition diamond :: heap where
  "diamond =
     [\<lparr>gn_id = 0, Neighbors = Slice [GraphNodePtr 1, GraphNodePtr 2]\<rparr>,
      \<lparr>gn_id = 1, Neighbors = Slice [GraphNodePtr 3]\<rparr>,
      \<lparr>gn_id = 2, Neighbors = Slice [GraphNodePtr 3]\<rparr>,
      \<lparr>gn_id = 3, Neighbors = NilSlice\<rparr>]"

text \<open>The chain \<open>0 \<rightarrow> 1 \<rightarrow> 2\<close> with a self-loop \<open>2 \<rightarrow> 2\<close> at its end.\<close>

definition lasso :: heap where
  "lasso =
     [\<lparr>gn_id = 0, Neighbors = Slice [GraphNodePtr 1]\<rparr>,
      \<lparr>gn_id = 1, Neighbors = Slice [GraphNodePtr 2]\<rparr>,
      \<lparr>gn_id = 2, Neighbors = Slice [GraphNodePtr 2]\<rparr>]"

text \<open>Two allocated nodes without neighbours.\<close>

definition two_nodes :: heap where
  "two_nodes = [\<lparr>gn_id = 0, Neighbors = NilSlice\<rparr>, \<lparr>gn_id = 1, Neighbors = NilSlice\<rparr>]"

text \<open>
  The chain \<open>0 \<rightarrow> 1 \<rightarrow> 2 \<rightarrow> 3\<close> with the back link \<open>3 \<rightarrow> 1\<close>; the node at address
  \<open>a\<close> has the id \<open>10 + a\<close>.
\<close>

definition chain_back :: heap where
  "chain_back =
     [\<lparr>gn_id = 10, Neighbors = Slice [GraphNodePtr 1]\<rparr>,
      \<lparr>gn_id = 11, Neighbors = Slice [GraphNodePtr 2]\<rparr>,
      \<lparr>gn_id = 12, Neighbors = Slice [GraphNodePtr 3]\<rparr>,
      \<lparr>gn_id = 13, Neighbors = Slice [GraphNodePtr 1]\<rparr>]"


section \<open>The identity index is a left inverse of id assignment\<close>

lemma upt_shift:
  "map (\<lambda>j. i + int j) [0..<a + b] =
     map (\<lambda>j. i + int j) [0..<a] @ map (\<lambda>j. i + int a + int j) [0..<b]"
  by (induction b) simp_all

lemma map_store_fresh: "k \<notin> fst ` set m \<Longrightarrow> map_store k v m = m @ [(k, v)]"
  by (induction m) auto

text \<open>
  The inner loop of \<^verbatim>\<open>CreateMap\<close>, started with a counter above every key in the
  map: it appends one entry per version, with consecutive ids.
\<close>

lemma CreateMap_versions_inv:
  "\<forall>k \<in> fst ` set m. k < i \<Longrightarrow>
   CreateMap_versions name vs (i, m) = (i', m') \<Longrightarrow>
     i' = i + int (length vs) \<and>
     map fst m' = map fst m @ map (\<lambda>j. i + int j) [0..<length vs] \<and>
     map (ni_id \<circ> snd) m' = map (ni_id \<circ> snd) m @ map (\<lambda>(v, vi). composite (name, v)) vs"
proof (induction vs arbitrary: i m)
  case Nil
  then show ?case by simp
next
  case (Cons a vs)
  obtain v vi where a: "a = (v, vi)" by (cases a)
  let ?m1 = "m @ [(i, NodeInfo name v (Timestamp vi))]"
  have fresh: "i \<notin> fst ` set m" using Cons.prems(1) by auto
  have step: "CreateMap_versions name vs (i + 1, ?m1) = (i', m')"
    using Cons.prems(2) fresh by (simp add: a map_store_fresh)
  have "\<forall>k \<in> fst ` set ?m1. k < i + 1" using Cons.prems(1) by auto
  from Cons.IH[OF this step]
  show ?case
    by (simp add: a NodeInfo_def composite_def map_upt_Suc del: upt_Suc)
qed

lemma CreateMap_packages_inv:
  "\<forall>k \<in> fst ` set m. k < i \<Longrightarrow>
   CreateMap_packages ps (i, m) = (i', m') \<Longrightarrow>
     i' = i + int (length (package_versions ps)) \<and>
     map fst m' = map fst m @ map (\<lambda>j. i + int j) [0..<length (package_versions ps)] \<and>
     map (ni_id \<circ> snd) m' = map (ni_id \<circ> snd) m @ map composite (package_versions ps)"
proof (induction ps arbitrary: i m)
  case Nil
  then show ?case by (simp add: package_versions_def)
next
  case (Cons p ps)
  obtain i1 m1 where s1: "CreateMap_versions (Name p) (Versions p) (i, m) = (i1, m1)"
    by (cases "CreateMap_versions (Name p) (Versions p) (i, m)")
  note v = CreateMap_versions_inv[OF Cons.prems(1) s1]
  have keys1: "\<forall>k \<in> fst ` set m1. k < i1"
  proof
    fix k assume "k \<in> fst ` set m1"
    then have "k \<in> set (map fst m1)" by simp
    then show "k < i1" using v Cons.prems(1) by auto
  qed
  have rest: "CreateMap_packages ps (i1, m1) = (i', m')"
    using Cons.prems(2) s1 by simp
  note r = Cons.IH[OF keys1 rest]
  have pv: "package_versions (p # ps) =
     map (\<lambda>(v, vi). (Name p, v)) (Versions p) @ package_versions ps"
    by (simp add: package_versions_def)
  have len: "length (package_versions (p # ps)) =
     length (Versions p) + length (package_versions ps)"
    by (simp add: pv)
  note upt = upt_shift[of i "length (Versions p)" "length (package_versions ps)"]
  show ?case using v r
    by (simp add: len upt pv comp_def case_prod_unfold)
qed

text \<open>\<^verbatim>\<open>CreateMap\<close> uses the ids \<open>0..N-1\<close>, once each, for \<open>N\<close> pairs.\<close>

lemma CreateMap_keys:
  "map fst (CreateMap ps) = map int [0..<length (package_versions ps)]"
proof -
  obtain i' m' where r: "CreateMap_packages ps (0, []) = (i', m')"
    by (cases "CreateMap_packages ps (0, [])")
  have "\<forall>k \<in> fst ` set ([] :: (int \<times> nodeInfo) list). k < 0" by simp
  from CreateMap_packages_inv[OF this r] r show ?thesis
    by (simp add: CreateMap_def)
qed

lemma CreateMap_ids:
  "map (ni_id \<circ> snd) (CreateMap ps) = map composite (package_versions ps)"
proof -
  obtain i' m' where r: "CreateMap_packages ps (0, []) = (i', m')"
    by (cases "CreateMap_packages ps (0, [])")
  have "\<forall>k \<in> fst ` set ([] :: (int \<times> nodeInfo) list). k < 0" by simp
  from CreateMap_packages_inv[OF this r] r show ?thesis
    by (simp add: CreateMap_def)
qed

lemma CreateNameToIDMap_range_eq:
  "CreateNameToIDMap_range m newMap =
     newMap ++ map_of (rev (map (\<lambda>(i, key). (ni_id key, i)) m))"
  by (induction m arbitrary: newMap)
     (auto simp: map_add_upd_left fun_eq_iff map_add_def split: option.splits)

text \<open>
  Claim C10. When the composite strings \<^verbatim>\<open>name + "-" + version\<close> of all
  (package, version) pairs of the input are pairwise distinct, the name-to-id map built
  from the output of \<^verbatim>\<open>CreateMap\<close> has exactly one entry per pair, and the
  composite string of every assigned id is mapped back to that id. The id map may be
  ranged over in any order (\<open>m\<close> is any reordering of \<open>CreateMap ps\<close>).
\<close>

theorem CreateNameToIDMap_left_inverse:
  assumes dist: "distinct (map composite (package_versions ps))"
    and order: "mset m = mset (CreateMap ps)"
  shows "dom (CreateNameToIDMap m) = composite ` set (package_versions ps) \<and>
         card (dom (CreateNameToIDMap m)) = length (package_versions ps) \<and>
         (\<forall>(i, key) \<in> set (CreateMap ps). CreateNameToIDMap m (ni_id key) = Some i)"
proof -
  let ?kv = "map (\<lambda>(i, key). (ni_id key, i)) m"
  have keys: "map fst ?kv = map (ni_id \<circ> snd) m"
    by (simp add: comp_def case_prod_unfold)
  have "mset (map (ni_id \<circ> snd) m) = mset (map (ni_id \<circ> snd) (CreateMap ps))"
    using order by simp
  then have perm: "mset (map fst ?kv) = mset (map composite (package_versions ps))"
    by (simp only: keys CreateMap_ids)
  have dkv: "distinct (map fst (rev ?kv))"
    using dist perm by (metis distinct_rev mset_eq_imp_distinct_iff rev_map)
  have eq: "CreateNameToIDMap m = map_of (rev ?kv)"
    by (simp add: CreateNameToIDMap_def CreateNameToIDMap_range_eq)
  have "dom (CreateNameToIDMap m) = set (map fst ?kv)"
    by (simp add: eq dom_map_of_conv_image_fst image_image)
  also have "\<dots> = set (map composite (package_versions ps))"
    using perm by (rule mset_eq_setD)
  finally have d: "dom (CreateNameToIDMap m) = composite ` set (package_versions ps)"
    by simp
  have c: "card (dom (CreateNameToIDMap m)) = length (package_versions ps)"
    using d distinct_card[OF dist] by simp
  have l: "\<forall>(i, key) \<in> set (CreateMap ps). CreateNameToIDMap m (ni_id key) = Some i"
  proof (clarify)
    fix i key assume "(i, key) \<in> set (CreateMap ps)"
    then have "(i, key) \<in> set m" using order by (metis mset_eq_setD)
    then have "(ni_id key, i) \<in> set (rev ?kv)" by force
    with dkv show "CreateNameToIDMap m (ni_id key) = Some i"
      unfolding eq by (rule map_of_is_SomeI)
  qed
  from d c l show ?thesis by blast
qed

lemma CreateMap_registry_AB:
  "CreateMap registry_AB =
     [(0, NodeInfo ''A'' ''1.0.0'' ''t0''), (1, NodeInfo ''B'' ''1.0.0'' ''t1''),
      (2, NodeInfo ''B'' ''2.0.0'' ''t2'')]"
  by (simp add: CreateMap_def registry_AB_def)

theorem CreateNameToIDMap_left_inverse_witness:
  "distinct (map composite (package_versions registry_AB)) \<and>
   mset (rev (CreateMap registry_AB)) = mset (CreateMap registry_AB) \<and>
   card (dom (CreateNameToIDMap (rev (CreateMap registry_AB)))) = 3 \<and>
   CreateNameToIDMap (rev (CreateMap registry_AB)) ''B-2.0.0'' = Some 2"
proof -
  have d: "distinct (map composite (package_versions registry_AB))"
    by (simp add: package_versions_def registry_AB_def composite_def)
  have o: "mset (rev (CreateMap registry_AB)) = mset (CreateMap registry_AB)"
    by simp
  have len: "length (package_versions registry_AB) = 3"
    by (simp add: package_versions_def registry_AB_def)
  have mem: "(2, NodeInfo ''B'' ''2.0.0'' ''t2'') \<in> set (CreateMap registry_AB)"
    by (simp add: CreateMap_registry_AB)
  from CreateNameToIDMap_left_inverse[OF d o] len mem show ?thesis
    using d o by (auto simp: NodeInfo_def)
qed

text \<open>
  Without the distinctness the entries collapse: the pairs \<open>(a-b, 1)\<close> and
  \<open>(a, b-1)\<close> share the composite string \<open>a-b-1\<close>, the index keeps one entry for
  two ids, and id 0 is not found again.
\<close>

lemma CreateNameToIDMap_collapse:
  "CreateMap registry_dash =
     [(0, NodeInfo ''a-b'' ''1'' ''t0''), (1, NodeInfo ''a'' ''b-1'' ''t1'')] \<and>
   dom (CreateNameToIDMap (CreateMap registry_dash)) = {''a-b-1''} \<and>
   CreateNameToIDMap (CreateMap registry_dash) ''a-b-1'' = Some 1"
  by (auto simp: CreateMap_def CreateNameToIDMap_def registry_dash_def NodeInfo_def)

section \<open>Facts about the edge resolver\<close>

lemmas build_simps =
  build_def frozen_state_def CreateGraph_def CreateMap_def NewDirectedGraph_def AddNode_def
  CreateEdges_def CreateNameToVersionMap_def CreateNameToIDMap_def slice_at_def int_at_def
  DirectedGraph_Node_def SetEdge_def NodeInfo_def edges_of_def

subsection \<open>The inputs are only read\<close>

lemma same_inputs_refl: "same_inputs s s"
  by (simp add: same_inputs_def)

lemma same_inputs_graph: "same_inputs s (s\<lparr>graph := g\<rparr>)"
  by (simp add: same_inputs_def)

lemma same_inputs_trans: "same_inputs s s1 \<Longrightarrow> same_inputs s1 s2 \<Longrightarrow> same_inputs s s2"
  by (simp add: same_inputs_def)

lemma CreateEdges_versions_inputs:
  "CreateEdges_versions Parse c i d vs s = Inr s' \<Longrightarrow> same_inputs s s'"
proof (induction vs arbitrary: s)
  case Nil
  then show ?case by (simp add: same_inputs_refl)
next
  case (Cons v vs)
  show ?case
  proof (cases "c (fst (Parse v))")
    case False
    with Cons show ?thesis by simp
  next
    case True
    with Cons.prems obtain g' where
      "CreateEdges_versions Parse c i d vs (s\<lparr>graph := g'\<rparr>) = Inr s'"
      by (auto simp: Let_def split: sum.splits)
    from Cons.IH[OF this] show ?thesis
      by (rule same_inputs_trans[OF same_inputs_graph])
  qed
qed

lemma CreateEdges_dependencies_inputs:
  "CreateEdges_dependencies ParseRange Parse i ds s = Inr s' \<Longrightarrow> same_inputs s s'"
proof (induction ds arbitrary: s)
  case Nil
  then show ?case by (simp add: same_inputs_refl)
next
  case (Cons a ds)
  obtain d r where a: "a = (d, r)" by (cases a)
  from Cons.prems obtain c s1 where
    "CreateEdges_versions Parse c i d (slice_at (nameToVersionMap s) d) s = Inr s1"
    "CreateEdges_dependencies ParseRange Parse i ds s1 = Inr s'"
    by (auto simp: a split: sum.splits)
  then show ?case
    using Cons.IH CreateEdges_versions_inputs same_inputs_trans by blast
qed

lemma CreateEdges_package_inputs:
  "CreateEdges_package ParseRange Parse i vs s = Inr s' \<Longrightarrow> same_inputs s s'"
proof (induction vs arbitrary: s)
  case Nil
  then show ?case by (simp add: same_inputs_refl)
next
  case (Cons a vs)
  obtain v vi where a: "a = (v, vi)" by (cases a)
  from Cons.prems obtain s1 where
    "CreateEdges_dependencies ParseRange Parse i (Dependencies vi) s = Inr s1"
    "CreateEdges_package ParseRange Parse i vs s1 = Inr s'"
    by (auto simp: a split: sum.splits)
  then show ?case
    using Cons.IH CreateEdges_dependencies_inputs same_inputs_trans by blast
qed

lemma CreateEdges_packages_inputs:
  "CreateEdges_packages ParseRange Parse i ps s = Inr s' \<Longrightarrow> same_inputs s s'"
proof (induction ps arbitrary: i s)
  case Nil
  then show ?case by (simp add: same_inputs_refl)
next
  case (Cons p ps)
  from Cons.prems obtain s1 where
    "CreateEdges_package ParseRange Parse i (Versions p) s = Inr s1"
    "CreateEdges_packages ParseRange Parse (i + 1) ps s1 = Inr s'"
    by (auto split: sum.splits)
  then show ?case
    using Cons.IH CreateEdges_package_inputs same_inputs_trans by blast
qed

text \<open>
  Claim C9. When \<^verbatim>\<open>CreateEdges\<close> completes, the package list, the name+version to id
  index and the name to versions index are what they were before the call.
\<close>

theorem CreateEdges_inputs_unchanged:
  "CreateEdges ParseRange Parse s = Inr s' \<Longrightarrow>
     inputList s' = inputList s \<and> nameToIDMap s' = nameToIDMap s \<and>
     nameToVersionMap s' = nameToVersionMap s"
  using CreateEdges_packages_inputs[of ParseRange Parse 0 "inputList s" s s']
  by (simp add: CreateEdges_def same_inputs_def)

theorem CreateEdges_inputs_unchanged_witness:
  "CreateEdges
     (\<lambda>r. if r = ''>=1.0.0 <2.0.0'' then Inr (\<lambda>v. v = ''1.0.0'') else Inl ''invalid range'')
     (\<lambda>v. (v, None)) state_AB =
     Inr (state_AB\<lparr>graph := \<lparr>dg_nodes = {0, 1, 2}, dg_edges = {(0, 1)}\<rparr>\<rparr>) \<and>
   inputList (state_AB\<lparr>graph := \<lparr>dg_nodes = {0, 1, 2}, dg_edges = {(0, 1)}\<rparr>\<rparr>) = registry_AB \<and>
   nameToIDMap (state_AB\<lparr>graph := \<lparr>dg_nodes = {0, 1, 2}, dg_edges = {(0, 1)}\<rparr>\<rparr>) =
     nameToIDMap state_AB \<and>
   nameToVersionMap (state_AB\<lparr>graph := \<lparr>dg_nodes = {0, 1, 2}, dg_edges = {(0, 1)}\<rparr>\<rparr>) =
     nameToVersionMap state_AB"
proof -
  have run: "CreateEdges
     (\<lambda>r. if r = ''>=1.0.0 <2.0.0'' then Inr (\<lambda>v. v = ''1.0.0'') else Inl ''invalid range'')
     (\<lambda>v. (v, None)) state_AB =
     Inr (state_AB\<lparr>graph := \<lparr>dg_nodes = {0, 1, 2}, dg_edges = {(0, 1)}\<rparr>\<rparr>)"
    by (simp add: state_AB_def registry_AB_def build_simps insert_commute)
  from CreateEdges_inputs_unchanged[OF run] run show ?thesis
    by (simp add: state_AB_def)
qed

subsection \<open>A malformed range\<close>

lemma CreateEdges_dependencies_parsed:
  "CreateEdges_dependencies ParseRange Parse i ds s = Inr s' \<Longrightarrow> (d, r) \<in> set ds \<Longrightarrow>
     \<exists>c. ParseRange r = Inr c"
proof (induction ds arbitrary: s)
  case Nil
  then show ?case by simp
next
  case (Cons a ds)
  obtain d0 r0 where a: "a = (d0, r0)" by (cases a)
  from Cons.prems(1) obtain c s1 where c: "ParseRange r0 = Inr c"
    and rest: "CreateEdges_dependencies ParseRange Parse i ds s1 = Inr s'"
    by (auto simp: a split: sum.splits)
  show ?case
  proof (cases "(d, r) = (d0, r0)")
    case True
    with c show ?thesis by auto
  next
    case False
    with Cons.prems(2) have "(d, r) \<in> set ds" by (auto simp: a)
    from Cons.IH[OF rest this] show ?thesis .
  qed
qed

lemma CreateEdges_package_parsed:
  "CreateEdges_package ParseRange Parse i vs s = Inr s' \<Longrightarrow> (v, vi) \<in> set vs \<Longrightarrow>
   (d, r) \<in> set (Dependencies vi) \<Longrightarrow> \<exists>c. ParseRange r = Inr c"
proof (induction vs arbitrary: s)
  case Nil
  then show ?case by simp
next
  case (Cons a vs)
  obtain v0 vi0 where a: "a = (v0, vi0)" by (cases a)
  from Cons.prems(1) obtain s1 where
    first: "CreateEdges_dependencies ParseRange Parse i (Dependencies vi0) s = Inr s1"
    and rest: "CreateEdges_package ParseRange Parse i vs s1 = Inr s'"
    by (auto simp: a split: sum.splits)
  show ?case
  proof (cases "(v, vi) = (v0, vi0)")
    case True
    with CreateEdges_dependencies_parsed[OF first] Cons.prems(3) show ?thesis by auto
  next
    case False
    with Cons.prems(2) have "(v, vi) \<in> set vs" by (auto simp: a)
    from Cons.IH[OF rest this Cons.prems(3)] show ?thesis .
  qed
qed

lemma CreateEdges_packages_parsed:
  "CreateEdges_packages ParseRange Parse i ps s = Inr s' \<Longrightarrow> p \<in> set ps \<Longrightarrow>
   (v, vi) \<in> set (Versions p) \<Longrightarrow> (d, r) \<in> set (Dependencies vi) \<Longrightarrow>
     \<exists>c. ParseRange r = Inr c"
proof (induction ps arbitrary: i s)
  case Nil
  then show ?case by simp
next
  case (Cons p0 ps)
  from Cons.prems(1) obtain s1 where
    first: "CreateEdges_package ParseRange Parse i (Versions p0) s = Inr s1"
    and rest: "CreateEdges_packages ParseRange Parse (i + 1) ps s1 = Inr s'"
    by (auto split: sum.splits)
  show ?case
  proof (cases "p = p0")
    case True
    with CreateEdges_package_parsed[OF first] Cons.prems(3,4) show ?thesis by auto
  next
    case False
    with Cons.prems(2) have "p \<in> set ps" by simp
    from Cons.IH[OF rest this Cons.prems(3,4)] show ?thesis .
  qed
qed

text \<open>
  \<^verbatim>\<open>CreateEdges\<close> completes only if every range constraint of the input parses.
\<close>

lemma CreateEdges_completes_parsed:
  assumes "p \<in> set (inputList s)" and "(v, vi) \<in> set (Versions p)"
    and "(d, r) \<in> set (Dependencies vi)" and "ParseRange r = Inl err"
  shows "\<exists>e. CreateEdges ParseRange Parse s = Inl e"
proof (cases "CreateEdges ParseRange Parse s")
  case (Inl e)
  then show ?thesis by blast
next
  case (Inr s')
  then have "CreateEdges_packages ParseRange Parse 0 (inputList s) s = Inr s'"
    by (simp add: CreateEdges_def)
  from CreateEdges_packages_parsed[OF this assms(1,2,3)] assms(4) show ?thesis by simp
qed

text \<open>Each loop over a list that is split in two runs the first part, then the second.\<close>

lemma CreateEdges_dependencies_append:
  "CreateEdges_dependencies ParseRange Parse i (ds1 @ ds2) s =
     (case CreateEdges_dependencies ParseRange Parse i ds1 s of
        Inl e \<Rightarrow> Inl e
      | Inr s1 \<Rightarrow> CreateEdges_dependencies ParseRange Parse i ds2 s1)"
proof (induction ds1 arbitrary: s)
  case Nil
  show ?case by simp
next
  case (Cons a ds1)
  obtain d r where a: "a = (d, r)" by (cases a)
  show ?case by (simp add: a Cons.IH split: sum.splits)
qed

lemma CreateEdges_package_append:
  "CreateEdges_package ParseRange Parse i (vs1 @ vs2) s =
     (case CreateEdges_package ParseRange Parse i vs1 s of
        Inl e \<Rightarrow> Inl e
      | Inr s1 \<Rightarrow> CreateEdges_package ParseRange Parse i vs2 s1)"
proof (induction vs1 arbitrary: s)
  case Nil
  show ?case by simp
next
  case (Cons a vs1)
  obtain v vi where a: "a = (v, vi)" by (cases a)
  show ?case by (simp add: a Cons.IH split: sum.splits)
qed

lemma CreateEdges_packages_append:
  "CreateEdges_packages ParseRange Parse i (ps1 @ ps2) s =
     (case CreateEdges_packages ParseRange Parse i ps1 s of
        Inl e \<Rightarrow> Inl e
      | Inr s1 \<Rightarrow> CreateEdges_packages ParseRange Parse (i + int (length ps1)) ps2 s1)"
proof (induction ps1 arbitrary: i s)
  case Nil
  show ?case by simp
next
  case (Cons p ps1)
  show ?case by (simp add: Cons.IH algebra_simps split: sum.splits)
qed

text \<open>
  Claim C2, as the code has it. A range constraint that fails to parse is not skipped.
  Let the input list, the versions of a package \<open>p\<close> and the constraints of its version
  \<open>v\<close> be split at a constraint \<open>(d, r)\<close> whose range \<open>r\<close> does not parse. Then
  \<^verbatim>\<open>CreateEdges\<close> does not complete; and when the packages, versions and constraints
  before \<open>(d, r)\<close> are resolved without a panic, \<^verbatim>\<open>CreateEdges\<close> panics with the
  parse error of \<open>r\<close>, whatever constraints, versions and packages follow: none of
  them is resolved.
\<close>

theorem CreateEdges_malformed_range_panics:
  assumes input: "inputList s = ps1 @ p # ps2"
    and versions: "Versions p = vs1 @ (v, vi) # vs2"
    and constraints: "Dependencies vi = ds1 @ (d, r) # ds2"
    and malformed: "ParseRange r = Inl err"
  shows "(\<exists>e. CreateEdges ParseRange Parse s = Inl e) \<and>
         (CreateEdges_packages ParseRange Parse 0 ps1 s = Inr s1 \<and>
          CreateEdges_package ParseRange Parse (int (length ps1)) vs1 s1 = Inr s2 \<and>
          CreateEdges_dependencies ParseRange Parse (int (length ps1)) ds1 s2 = Inr s3 \<longrightarrow>
            CreateEdges ParseRange Parse s = Inl (ParseRangeError err))"
proof (intro conjI impI)
  have "p \<in> set (inputList s)" "(v, vi) \<in> set (Versions p)" "(d, r) \<in> set (Dependencies vi)"
    by (simp_all add: input versions constraints)
  from CreateEdges_completes_parsed[where ParseRange = ParseRange and r = r, OF this malformed]
  show "\<exists>e. CreateEdges ParseRange Parse s = Inl e" .
next
  assume before: "CreateEdges_packages ParseRange Parse 0 ps1 s = Inr s1 \<and>
    CreateEdges_package ParseRange Parse (int (length ps1)) vs1 s1 = Inr s2 \<and>
    CreateEdges_dependencies ParseRange Parse (int (length ps1)) ds1 s2 = Inr s3"
  have deps: "CreateEdges_dependencies ParseRange Parse (int (length ps1)) (Dependencies vi) s2 =
      Inl (ParseRangeError err)"
    using before malformed by (simp add: constraints CreateEdges_dependencies_append)
  have vers: "CreateEdges_package ParseRange Parse (int (length ps1)) (Versions p) s1 =
      Inl (ParseRangeError err)"
    using before deps by (simp add: versions CreateEdges_package_append)
  show "CreateEdges ParseRange Parse s = Inl (ParseRangeError err)"
    using before vers by (simp add: CreateEdges_def input CreateEdges_packages_append)
qed

theorem CreateEdges_malformed_range_panics_witness:
  "CreateEdges_dependencies
     (\<lambda>r. if r = ''>=0.0.0'' then Inr (\<lambda>v. True) else Inl ''invalid range'')
     (\<lambda>v. (v, None)) 1 [(''C'', ''>=0.0.0'')] state_bad_range =
     Inr (state_bad_range\<lparr>graph := \<lparr>dg_nodes = {0, 1, 2, 3}, dg_edges = {(1, 0)}\<rparr>\<rparr>) \<and>
   CreateEdges (\<lambda>r. if r = ''>=0.0.0'' then Inr (\<lambda>v. True) else Inl ''invalid range'')
     (\<lambda>v. (v, None)) state_bad_range = Inl (ParseRangeError ''invalid range'')"
proof -
  let ?PR = "\<lambda>r. if r = ''>=0.0.0'' then Inr (\<lambda>v::string. True) else Inl ''invalid range''"
  let ?P = "\<lambda>v::string. (v, None :: string option)"
  let ?s3 = "state_bad_range\<lparr>graph := \<lparr>dg_nodes = {0, 1, 2, 3}, dg_edges = {(1, 0)}\<rparr>\<rparr>"
  have input: "inputList state_bad_range =
      [registry_bad_range ! 0] @ registry_bad_range ! 1 # [registry_bad_range ! 2, registry_bad_range ! 3]"
    by (simp add: state_bad_range_def registry_bad_range_def)
  have versions: "Versions (registry_bad_range ! 1) = [] @ (''1.0.0'', bad_range_deps) # []"
    by (simp add: registry_bad_range_def)
  have constraints: "Dependencies bad_range_deps =
      [(''C'', ''>=0.0.0'')] @ (''B'', ''>>1'') # [(''D'', ''>=0.0.0'')]"
    by (simp add: bad_range_deps_def)
  have malformed: "?PR ''>>1'' = Inl ''invalid range''" by simp
  have b1: "CreateEdges_packages ?PR ?P 0 [registry_bad_range ! 0] state_bad_range =
      Inr state_bad_range"
    by (simp add: registry_bad_range_def)
  have b2: "CreateEdges_package ?PR ?P (int (length [registry_bad_range ! 0])) []
      state_bad_range = Inr state_bad_range"
    by simp
  have b3: "CreateEdges_dependencies ?PR ?P 1 [(''C'', ''>=0.0.0'')] state_bad_range = Inr ?s3"
    by (simp add: state_bad_range_def registry_bad_range_def bad_range_deps_def build_simps
        insert_commute)
  then have b3': "CreateEdges_dependencies ?PR ?P (int (length [registry_bad_range ! 0]))
      [(''C'', ''>=0.0.0'')] state_bad_range = Inr ?s3"
    by simp
  from CreateEdges_malformed_range_panics[where ParseRange = ?PR and r = "''>>1''"
      and Parse = ?P and ?s1.0 = state_bad_range and ?s2.0 = state_bad_range and ?s3.0 = ?s3,
      OF input versions constraints malformed]
    b1 b2 b3'
  have "CreateEdges ?PR ?P state_bad_range = Inl (ParseRangeError ''invalid range'')"
    by blast
  with b3 show ?thesis by simp
qed

text \<open>
  The claim as stated fails: the second constraint of \<open>A\<close> has a malformed range, and
  the build stops with the parse error instead of skipping that constraint and
  resolving the well-formed constraint on \<open>D\<close> that follows.
\<close>

theorem CreateEdges_malformed_range_counterexample:
  "build (\<lambda>r. if r = ''>=0.0.0'' then Inr (\<lambda>v. True) else Inl ''invalid range'')
     (\<lambda>v. (v, None)) registry_bad_range = Inl (ParseRangeError ''invalid range'')"
  by (simp add: registry_bad_range_def bad_range_deps_def build_simps)

subsection \<open>A malformed version string\<close>

lemma CreateEdges_versions_err:
  "CreateEdges_versions (\<lambda>v. (ver v, err v)) c i d vs s =
   CreateEdges_versions (\<lambda>v. (ver v, None)) c i d vs s"
  by (induction vs arbitrary: s) (simp_all add: Let_def split: sum.splits)

lemma CreateEdges_dependencies_err:
  "CreateEdges_dependencies ParseRange (\<lambda>v. (ver v, err v)) i ds s =
   CreateEdges_dependencies ParseRange (\<lambda>v. (ver v, None)) i ds s"
proof (induction ds arbitrary: s)
  case Nil
  show ?case by simp
next
  case (Cons a ds)
  obtain d r where a: "a = (d, r)" by (cases a)
  show ?case
    by (simp add: a Cons.IH CreateEdges_versions_err[of ver err] split: sum.splits)
qed

lemma CreateEdges_package_err:
  "CreateEdges_package ParseRange (\<lambda>v. (ver v, err v)) i vs s =
   CreateEdges_package ParseRange (\<lambda>v. (ver v, None)) i vs s"
proof (induction vs arbitrary: s)
  case Nil
  show ?case by simp
next
  case (Cons a vs)
  obtain v vi where a: "a = (v, vi)" by (cases a)
  show ?case
    by (simp add: a Cons.IH CreateEdges_dependencies_err[of ParseRange ver err]
        split: sum.splits)
qed

lemma CreateEdges_packages_err:
  "CreateEdges_packages ParseRange (\<lambda>v. (ver v, err v)) i ps s =
   CreateEdges_packages ParseRange (\<lambda>v. (ver v, None)) i ps s"
  by (induction ps arbitrary: i s)
     (simp_all add: CreateEdges_package_err[of ParseRange ver err] split: sum.splits)

lemma CreateEdges_Parse_error_ignored:
  "CreateEdges ParseRange (\<lambda>v. (ver v, err v)) s =
   CreateEdges ParseRange (\<lambda>v. (ver v, None)) s"
  by (simp add: CreateEdges_def CreateEdges_packages_err[of ParseRange ver err])

text \<open>
  \<^verbatim>\<open>SetEdge\<close> on the two nodes that \<^verbatim>\<open>graph.Node\<close> returns: both ids have to be
  in the graph and to differ, and then only the edge is new.
\<close>

lemma SetEdge_Node:
  "SetEdge G (DirectedGraph_Node G i) (DirectedGraph_Node G t) =
     (if i \<in> dg_nodes G \<and> t \<in> dg_nodes G
      then (if i = t then Inl SelfEdge
            else Inr (G\<lparr>dg_edges := insert (i, t) (dg_edges G)\<rparr>))
      else Inl NilDereference)"
  by (simp add: SetEdge_def DirectedGraph_Node_def insert_absorb)

text \<open>
  The loop over the published versions of one dependency, in closed form. It depends
  on \<open>Parse\<close> through the returned version only. It completes exactly when, for every
  version whose returned value the range accepts, the source node and the target node
  are in the graph and differ; and then it has added the edge to the target of each of
  these versions, and nothing else.
\<close>

lemma CreateEdges_versions_closed_form:
  "CreateEdges_versions Parse c i d vs s = Inr s' \<longleftrightarrow>
     (\<forall>v \<in> set vs. c (fst (Parse v)) \<longrightarrow>
        i \<in> dg_nodes (graph s) \<and> int_at (nameToIDMap s) (d @ ''-'' @ v) \<in> dg_nodes (graph s) \<and>
        int_at (nameToIDMap s) (d @ ''-'' @ v) \<noteq> i) \<and>
     s' = s\<lparr>graph := (graph s)\<lparr>dg_edges := dg_edges (graph s) \<union>
            {(i, int_at (nameToIDMap s) (d @ ''-'' @ v)) |v. v \<in> set vs \<and> c (fst (Parse v))}\<rparr>\<rparr>"
proof (induction vs arbitrary: s)
  case Nil
  show ?case by auto
next
  case (Cons v vs)
  let ?t = "\<lambda>v. int_at (nameToIDMap s) (d @ ''-'' @ v)"
  show ?case
  proof (cases "c (fst (Parse v))")
    case False
    have "{(i, ?t w) |w. w \<in> set (v # vs) \<and> c (fst (Parse w))} =
          {(i, ?t w) |w. w \<in> set vs \<and> c (fst (Parse w))}"
      using False by auto
    with False Cons.IH[of s] show ?thesis by simp
  next
    case True
    show ?thesis
    proof (cases "i \<in> dg_nodes (graph s) \<and> ?t v \<in> dg_nodes (graph s) \<and> ?t v \<noteq> i")
      case False
      with True have "\<exists>e. CreateEdges_versions Parse c i d (v # vs) s = Inl e"
        by (auto simp: Let_def SetEdge_Node)
      with True False show ?thesis by auto
    next
      case ok: True
      let ?s1 = "s\<lparr>graph := (graph s)\<lparr>dg_edges := insert (i, ?t v) (dg_edges (graph s))\<rparr>\<rparr>"
      have step: "CreateEdges_versions Parse c i d (v # vs) s =
                  CreateEdges_versions Parse c i d vs ?s1"
        using True ok by (simp add: Let_def SetEdge_Node)
      have edges: "insert (i, ?t v) (dg_edges (graph s)) \<union>
             {(i, ?t w) |w. w \<in> set vs \<and> c (fst (Parse w))} =
           dg_edges (graph s) \<union> {(i, ?t w) |w. w \<in> set (v # vs) \<and> c (fst (Parse w))}"
        using True by auto
      have "CreateEdges_versions Parse c i d vs ?s1 = Inr s' \<longleftrightarrow>
         (\<forall>w \<in> set vs. c (fst (Parse w)) \<longrightarrow>
            i \<in> dg_nodes (graph s) \<and> ?t w \<in> dg_nodes (graph s) \<and> ?t w \<noteq> i) \<and>
         s' = s\<lparr>graph := (graph s)\<lparr>dg_edges := insert (i, ?t v) (dg_edges (graph s)) \<union>
                {(i, ?t w) |w. w \<in> set vs \<and> c (fst (Parse w))}\<rparr>\<rparr>"
        using Cons.IH[of ?s1] by simp
      with step ok show ?thesis by (simp only: edges) auto
    qed
  qed
qed

text \<open>
  Claim C8, as the code has it. The error that \<open>Parse\<close> returns for a published
  version string is discarded, and the version is treated like any other with the
  value that came with the error: a malformed version string raises no panic of its
  own and is not skipped. The loop over the versions of one dependency completes
  exactly when, for every version whose returned value \<open>fst (Parse v)\<close> the range
  accepts, the source node and the target node are in the graph and differ; it then
  has added the edges to the targets of exactly these versions. And whatever errors
  \<open>err\<close> the parser reports, \<^verbatim>\<open>CreateEdges\<close> behaves as if it had reported none.
\<close>

theorem CreateEdges_malformed_version_not_skipped:
  "(CreateEdges_versions Parse c i d vs s = Inr s' \<longleftrightarrow>
      (\<forall>v \<in> set vs. c (fst (Parse v)) \<longrightarrow>
         i \<in> dg_nodes (graph s) \<and> int_at (nameToIDMap s) (d @ ''-'' @ v) \<in> dg_nodes (graph s) \<and>
         int_at (nameToIDMap s) (d @ ''-'' @ v) \<noteq> i) \<and>
      s' = s\<lparr>graph := (graph s)\<lparr>dg_edges := dg_edges (graph s) \<union>
             {(i, int_at (nameToIDMap s) (d @ ''-'' @ v)) |v. v \<in> set vs \<and> c (fst (Parse v))}\<rparr>\<rparr>) \<and>
   CreateEdges ParseRange (\<lambda>v. (ver v, err v)) s0 =
     CreateEdges ParseRange (\<lambda>v. (ver v, None)) s0"
  using CreateEdges_versions_closed_form[of Parse c i d vs s s']
    CreateEdges_Parse_error_ignored[of ParseRange ver err s0]
  by blast

theorem CreateEdges_malformed_version_not_skipped_witness:
  "CreateEdges_versions
     (\<lambda>v. if v = ''one'' then (''0.0.0'', Some ''invalid version'') else (v, None))
     (\<lambda>v. True) 0 ''B'' [''one''] state_bad_version =
   Inr (state_bad_version\<lparr>graph := \<lparr>dg_nodes = {0, 1}, dg_edges = {(0, 1)}\<rparr>\<rparr>)"
proof -
  let ?P = "\<lambda>v. if v = ''one'' then (''0.0.0'', Some ''invalid version'') else (v, None)"
  let ?s' = "state_bad_version\<lparr>graph := \<lparr>dg_nodes = {0, 1}, dg_edges = {(0, 1)}\<rparr>\<rparr>"
  have target: "int_at (nameToIDMap state_bad_version) (''B'' @ ''-'' @ ''one'') = 1"
    by (simp add: state_bad_version_def registry_bad_version_def build_simps)
  have nodes: "dg_nodes (graph state_bad_version) = {0, 1}"
    and edges: "dg_edges (graph state_bad_version) = {}"
    by (simp_all add: state_bad_version_def)
  have set: "{(0, int_at (nameToIDMap state_bad_version) (''B'' @ ''-'' @ v)) |v.
               v \<in> set [''one''] \<and> True} = {(0, 1)}"
    using target by auto
  have s': "?s' = state_bad_version\<lparr>graph := (graph state_bad_version)
       \<lparr>dg_edges := dg_edges (graph state_bad_version) \<union> {(0, 1)}\<rparr>\<rparr>"
    by (simp add: state_bad_version_def)
  from CreateEdges_malformed_version_not_skipped[where Parse = ?P and c = "\<lambda>v. True"
      and i = 0 and d = "''B''" and vs = "[''one'']" and s = state_bad_version and s' = ?s'
      and ver = id and err = "\<lambda>v. None" and ParseRange = "\<lambda>r. Inl r"
      and ?s0.0 = state_bad_version]
  show ?thesis
    using target nodes set s' by simp
qed

text \<open>
  The claim as stated fails: the version string \<open>one\<close> of \<open>B\<close> does not parse, the
  parser returns the zero version with its error, the range \<open>>=0.0.0\<close> accepts it, and
  the build has the edge from node 0 (\<open>A-1.0.0\<close>) to node 1 (\<open>B-one\<close>).
\<close>

theorem CreateEdges_malformed_version_counterexample:
  "map (\<lambda>(i, n). (i, ni_id n)) (CreateMap registry_bad_version) =
     [(0, ''A-1.0.0''), (1, ''B-one'')] \<and>
   edges_of (build (\<lambda>r. if r = ''>=0.0.0'' then Inr (\<lambda>v. True) else Inl ''invalid range'')
      (\<lambda>v. if v = ''one'' then (''0.0.0'', Some ''invalid version'') else (v, None))
      registry_bad_version) = Inr {(0, 1)}"
  by (simp add: registry_bad_version_def build_simps)

subsection \<open>The source node of an edge\<close>

lemma CreateEdges_versions_source:
  "CreateEdges_versions Parse c i d vs s = Inr s' \<Longrightarrow>
     dg_edges (graph s') \<subseteq> dg_edges (graph s) \<union> {i} \<times> UNIV"
proof (induction vs arbitrary: s)
  case Nil
  then show ?case by auto
next
  case (Cons v vs)
  show ?case
  proof (cases "c (fst (Parse v))")
    case False
    with Cons show ?thesis by simp
  next
    case True
    with Cons.prems obtain g' where
      g': "SetEdge (graph s) (DirectedGraph_Node (graph s) i)
             (DirectedGraph_Node (graph s) (int_at (nameToIDMap s) (d @ ''-'' @ v))) = Inr g'"
      and rest: "CreateEdges_versions Parse c i d vs (s\<lparr>graph := g'\<rparr>) = Inr s'"
      by (auto simp: Let_def split: sum.splits)
    from g' have "dg_edges g' \<subseteq> dg_edges (graph s) \<union> {i} \<times> UNIV"
      by (auto simp: SetEdge_def DirectedGraph_Node_def split: option.splits if_splits)
    with Cons.IH[OF rest] show ?thesis by auto
  qed
qed

lemma CreateEdges_dependencies_source:
  "CreateEdges_dependencies ParseRange Parse i ds s = Inr s' \<Longrightarrow>
     dg_edges (graph s') \<subseteq> dg_edges (graph s) \<union> {i} \<times> UNIV"
proof (induction ds arbitrary: s)
  case Nil
  then show ?case by auto
next
  case (Cons a ds)
  obtain d r where a: "a = (d, r)" by (cases a)
  from Cons.prems obtain c s1 where
    first: "CreateEdges_versions Parse c i d (slice_at (nameToVersionMap s) d) s = Inr s1"
    and rest: "CreateEdges_dependencies ParseRange Parse i ds s1 = Inr s'"
    by (auto simp: a split: sum.splits)
  from CreateEdges_versions_source[OF first] Cons.IH[OF rest] show ?case by auto
qed

lemma CreateEdges_package_source:
  "CreateEdges_package ParseRange Parse i vs s = Inr s' \<Longrightarrow>
     dg_edges (graph s') \<subseteq> dg_edges (graph s) \<union> {i} \<times> UNIV"
proof (induction vs arbitrary: s)
  case Nil
  then show ?case by auto
next
  case (Cons a vs)
  obtain v vi where a: "a = (v, vi)" by (cases a)
  from Cons.prems obtain s1 where
    first: "CreateEdges_dependencies ParseRange Parse i (Dependencies vi) s = Inr s1"
    and rest: "CreateEdges_package ParseRange Parse i vs s1 = Inr s'"
    by (auto simp: a split: sum.splits)
  from CreateEdges_dependencies_source[OF first] Cons.IH[OF rest] show ?case by auto
qed

text \<open>
  Every edge that \<^verbatim>\<open>CreateEdges\<close> adds leaves the node whose id is the position of a
  package in the input list, not the id of a (package, version) pair.
\<close>

lemma CreateEdges_packages_source:
  "CreateEdges_packages ParseRange Parse i ps s = Inr s' \<Longrightarrow>
     dg_edges (graph s') \<subseteq> dg_edges (graph s) \<union> {i..<i + int (length ps)} \<times> UNIV"
proof (induction ps arbitrary: i s)
  case Nil
  then show ?case by auto
next
  case (Cons p ps)
  from Cons.prems obtain s1 where
    first: "CreateEdges_package ParseRange Parse i (Versions p) s = Inr s1"
    and rest: "CreateEdges_packages ParseRange Parse (i + 1) ps s1 = Inr s'"
    by (auto split: sum.splits)
  have "({i} \<union> {i + 1..<i + 1 + int (length ps)}) \<times> (UNIV :: int set) \<subseteq>
        {i..<i + int (length (p # ps))} \<times> UNIV"
    by auto
  with CreateEdges_package_source[OF first] Cons.IH[OF rest] show ?case by blast
qed

text \<open>
  Claim C1 fails on the code. In \<open>registry_BAC\<close> the only constraint is declared by
  \<open>A-1.0.0\<close>, which is node 2, and is satisfied by \<open>C-1.0.0\<close>, which is node 3. The
  build has no edge from node 2; its only edge leaves node 1, which is \<open>B-2.0.0\<close>,
  because \<open>A\<close> is at position 1 of the package list.
\<close>

theorem CreateEdges_source_is_package_index:
  "map (\<lambda>(i, n). (i, ni_id n)) (CreateMap registry_BAC) =
     [(0, ''B-1.0.0''), (1, ''B-2.0.0''), (2, ''A-1.0.0''), (3, ''C-1.0.0'')] \<and>
   edges_of (build (\<lambda>r. if r = ''>=0.0.0'' then Inr (\<lambda>v. True) else Inl ''invalid range'')
      (\<lambda>v. (v, None)) registry_BAC) = Inr {(1, 3)}"
  by (simp add: registry_BAC_def build_simps)

text \<open>
  When \<^verbatim>\<open>range\<close> visits the two versions of \<open>B\<close> in the other order, node 1 is
  \<open>B-1.0.0\<close>, and the only edge of the build is again the edge from node 1 to node 3.
\<close>

lemma CreateEdges_source_other_order:
  "map (\<lambda>(i, n). (i, ni_id n))
     (CreateMap (registry_BAC[0 := (registry_BAC ! 0)\<lparr>Versions := rev (Versions (registry_BAC ! 0))\<rparr>])) =
     [(0, ''B-2.0.0''), (1, ''B-1.0.0''), (2, ''A-1.0.0''), (3, ''C-1.0.0'')] \<and>
   edges_of (build (\<lambda>r. if r = ''>=0.0.0'' then Inr (\<lambda>v. True) else Inl ''invalid range'')
     (\<lambda>v. (v, None))
     (registry_BAC[0 := (registry_BAC ! 0)\<lparr>Versions := rev (Versions (registry_BAC ! 0))\<rparr>])) =
     Inr {(1, 3)}"
  by (simp add: registry_BAC_def build_simps)

section \<open>Facts about the implicit graph\<close>

lemmas heap_simps = deref_def ID.simps Has.simps FindNeighbors.simps edgeBetween.simps

subsection \<open>Root-relative lookup\<close>

text \<open>
  Claim C3 fails on the code. In the cycle \<open>0 \<rightarrow> 1 \<rightarrow> 2 \<rightarrow> 0\<close> the lookup of id 2
  from the root 0 terminates, but it returns the direct neighbour below which
  \<^verbatim>\<open>Has\<close> found the id, which is the node with id 1. The ids 0 and 1 are found.
\<close>

theorem Node_returns_direct_neighbour:
  "Node cycle3 0 2 = Inr (Some (GraphNodePtr 1)) \<and> ID cycle3 (GraphNodePtr 1) = Some 1 \<and>
   Node cycle3 0 0 = Inr (Some (GraphNodePtr 0)) \<and>
   Node cycle3 0 1 = Inr (Some (GraphNodePtr 1))"
  by (simp add: Node_def cycle3_def heap_simps)

text \<open>
  \<^verbatim>\<open>From\<close> on a node below the root tells the nil slice from the empty one: a node
  whose slice is nil counts as not found, a node whose slice is empty and not nil
  gives an iterator without elements.
\<close>

lemma From_nil_and_empty_slice:
  "From [\<lparr>gn_id = 0, Neighbors = Slice [GraphNodePtr 1]\<rparr>, \<lparr>gn_id = 1, Neighbors = NilSlice\<rparr>]
     0 1 = Inr None \<and>
   From [\<lparr>gn_id = 0, Neighbors = Slice [GraphNodePtr 1]\<rparr>, \<lparr>gn_id = 1, Neighbors = Slice []\<rparr>]
     0 1 = Inr (Some [])"
  by (simp add: From_def heap_simps)

subsection \<open>Enumeration of all nodes\<close>

text \<open>More fuel does not change a result.\<close>

lemma nodes_fuel_mono:
  "nodes fuel h g dst seen = Some r \<Longrightarrow> nodes (fuel + k) h g dst seen = Some r"
  "nodes_range fuel h ns dst seen = Some r \<Longrightarrow> nodes_range (fuel + k) h ns dst seen = Some r"
proof (induction fuel h g dst seen and fuel h ns dst seen arbitrary: r and r
    rule: nodes_nodes_range.induct)
  case (1 h g dst seen)
  then show ?case by simp
next
  case (2 fuel h g dst seen)
  then show ?case by (cases "deref h g") auto
next
  case (3 fuel h dst seen)
  then show ?case by simp
next
  case (4 fuel h n ns dst seen)
  show ?case
  proof (cases "ID h n")
    case None
    with "4.prems" show ?thesis by simp
  next
    case (Some j)
    show ?thesis
    proof (cases "j \<in> seen")
      case True
      with "4.prems" Some "4.IH"(1) show ?thesis by simp
    next
      case unseen: False
      show ?thesis
      proof (cases n)
        case (OtherNode x)
        with "4.prems" Some unseen "4.IH"(4) show ?thesis by simp
      next
        case (GraphNodePtr a)
        with "4.prems" Some unseen obtain r1 where
          sub: "nodes fuel h a (dst @ [n]) seen = Some r1"
          by (cases "nodes fuel h a (dst @ [n]) seen") auto
        from "4.IH"(2)[OF Some unseen GraphNodePtr sub]
        have sub': "nodes (fuel + k) h a (dst @ [n]) seen = Some r1" .
        show ?thesis
        proof (cases r1)
          case (Inl e)
          with "4.prems" Some unseen GraphNodePtr sub have "r = Inl e" by simp
          with Some unseen GraphNodePtr sub' Inl show ?thesis by simp
        next
          case (Inr dst')
          with "4.prems" Some unseen GraphNodePtr sub
          have "nodes_range fuel h ns dst' seen = Some r" by simp
          from "4.IH"(3)[OF Some unseen GraphNodePtr sub Inr this]
          show ?thesis using Some unseen GraphNodePtr sub' Inr by simp
        qed
      qed
    qed
  qed
qed

text \<open>
  Claim C4 fails on the code. In the diamond two paths lead to node 3, and
  \<^verbatim>\<open>Nodes\<close> returns it twice, for every depth of stack that lets it return.
\<close>

theorem Nodes_diamond_duplicate:
  "Nodes (Suc (Suc fuel)) diamond 0 =
     Some (Inr [GraphNodePtr 0, GraphNodePtr 1, GraphNodePtr 3, GraphNodePtr 2, GraphNodePtr 3])"
  by (simp add: Nodes_def diamond_def heap_simps)

subsection \<open>Termination\<close>

lemma lasso_deref:
  "deref lasso 0 = Some \<lparr>gn_id = 0, Neighbors = Slice [GraphNodePtr 1]\<rparr>"
  "deref lasso (Suc 0) = Some \<lparr>gn_id = 1, Neighbors = Slice [GraphNodePtr 2]\<rparr>"
  "deref lasso 2 = Some \<lparr>gn_id = 2, Neighbors = Slice [GraphNodePtr 2]\<rparr>"
  by (simp_all add: lasso_def deref_def)

lemma lasso_ID:
  "ID lasso (GraphNodePtr (Suc 0)) = Some 1" "ID lasso (GraphNodePtr 2) = Some 2"
  by (simp_all add: ID.simps lasso_deref)

text \<open>
  Below the root the map \<^verbatim>\<open>seen\<close> is never written: as long as it lacks the id 2,
  node 2 finds its neighbour 2 unseen and calls \<^verbatim>\<open>nodes\<close> on it, again and again.
\<close>

lemma nodes_lasso_2: "2 \<notin> seen \<Longrightarrow> nodes fuel lasso 2 dst seen = None"
proof (induction fuel arbitrary: dst)
  case 0
  show ?case by simp
next
  case (Suc fuel)
  then show ?case by (simp add: lasso_deref lasso_ID)
qed

lemma nodes_lasso_1: "2 \<notin> seen \<Longrightarrow> nodes fuel lasso (Suc 0) dst seen = None"
  by (cases fuel) (simp_all add: lasso_deref lasso_ID nodes_lasso_2)

text \<open>
  Claim C5 fails on the code. \<^verbatim>\<open>Node\<close>, \<^verbatim>\<open>From\<close>, \<^verbatim>\<open>EdgeBetween\<close> and their
  helpers are total functions (their termination is proved where they are defined),
  but \<^verbatim>\<open>Nodes\<close> does not return on the chain \<open>0 \<rightarrow> 1 \<rightarrow> 2\<close> with the self-loop
  \<open>2 \<rightarrow> 2\<close>: no depth of stack is enough.
\<close>

theorem Nodes_lasso_diverges: "Nodes fuel lasso 0 = None"
  by (simp add: Nodes_def lasso_deref lasso_ID nodes_lasso_1)

subsection \<open>Adding nodes, neighbours and edges twice\<close>

lemma AddNeighbor_Neighbors:
  "g < length h \<Longrightarrow>
     \<exists>h'. AddNeighbor h g n = Inr h' \<and> length h' = length h \<and>
       elems (Neighbors (h' ! g)) = elems (Neighbors (h ! g)) @ [GraphNodePtr n]"
  by (simp add: AddNeighbor_def deref_def)

lemma AddNode_twice: "AddNode G i = Inr G1 \<Longrightarrow> AddNode G1 i = Inl (NodeIDCollision i)"
  by (auto simp: AddNode_def split: if_splits)

lemma SetEdge_twice: "SetEdge G F T = Inr G1 \<Longrightarrow> SetEdge G1 F T = Inr G1"
  by (auto simp: SetEdge_def insert_absorb split: option.splits if_splits)

text \<open>
  \<^verbatim>\<open>CreateGraph\<close> adds every key of the id map once: with distinct keys it does not
  panic, and the nodes of the graph are the keys.
\<close>

lemma CreateGraph_range_nodes:
  "distinct (map fst m) \<Longrightarrow> fst ` set m \<inter> dg_nodes G = {} \<Longrightarrow>
     \<exists>G'. CreateGraph_range m G = Inr G' \<and> dg_nodes G' = dg_nodes G \<union> fst ` set m \<and>
       dg_edges G' = dg_edges G"
proof (induction m arbitrary: G)
  case Nil
  show ?case by simp
next
  case (Cons a m)
  obtain x ni where a: "a = (x, ni)" by (cases a)
  let ?G1 = "G\<lparr>dg_nodes := insert x (dg_nodes G)\<rparr>"
  from Cons.prems have add: "AddNode G x = Inr ?G1"
    by (simp add: a AddNode_def)
  from Cons.prems have "distinct (map fst m)" "fst ` set m \<inter> dg_nodes ?G1 = {}"
    by (auto simp: a)
  from Cons.IH[OF this] obtain G' where
    "CreateGraph_range m ?G1 = Inr G'" "dg_nodes G' = dg_nodes ?G1 \<union> fst ` set m"
    "dg_edges G' = dg_edges ?G1" by blast
  with add show ?case by (auto simp: a)
qed

lemma CreateGraph_nodes:
  "distinct (map fst m) \<Longrightarrow>
     \<exists>G. CreateGraph m = Inr G \<and> dg_nodes G = fst ` set m \<and> dg_edges G = {}"
  using CreateGraph_range_nodes[of m NewDirectedGraph]
  by (simp add: CreateGraph_def NewDirectedGraph_def)

text \<open>
  Claim C7, as the code has it. \<^verbatim>\<open>AddNeighbor\<close> has no test for duplicates: each
  call on an allocated node appends one entry to its neighbour list, so adding the
  same neighbour twice leaves it there twice. In the graph store, adding a node id a
  second time is not a silent no-op but a panic, and setting the same edge a second
  time changes nothing.
\<close>

theorem AddNeighbor_twice_appends_twice:
  assumes "g < length h"
  shows "(\<exists>h1 h2. AddNeighbor h g n = Inr h1 \<and> AddNeighbor h1 g n = Inr h2 \<and>
            elems (Neighbors (h1 ! g)) = elems (Neighbors (h ! g)) @ [GraphNodePtr n] \<and>
            elems (Neighbors (h2 ! g)) = elems (Neighbors (h ! g)) @ [GraphNodePtr n, GraphNodePtr n]) \<and>
         (AddNode G i = Inr G1 \<longrightarrow> AddNode G1 i = Inl (NodeIDCollision i)) \<and>
         (SetEdge G F T = Inr G2 \<longrightarrow> SetEdge G2 F T = Inr G2)"
proof (intro conjI impI)
  from AddNeighbor_Neighbors[OF assms, of n] obtain h1 where
    h1: "AddNeighbor h g n = Inr h1" "length h1 = length h"
    "elems (Neighbors (h1 ! g)) = elems (Neighbors (h ! g)) @ [GraphNodePtr n]" by blast
  from assms h1(2) have "g < length h1" by simp
  from AddNeighbor_Neighbors[OF this, of n] obtain h2 where
    h2: "AddNeighbor h1 g n = Inr h2"
    "elems (Neighbors (h2 ! g)) = elems (Neighbors (h1 ! g)) @ [GraphNodePtr n]" by blast
  from h1 h2 show "\<exists>h1 h2. AddNeighbor h g n = Inr h1 \<and> AddNeighbor h1 g n = Inr h2 \<and>
     elems (Neighbors (h1 ! g)) = elems (Neighbors (h ! g)) @ [GraphNodePtr n] \<and>
     elems (Neighbors (h2 ! g)) = elems (Neighbors (h ! g)) @ [GraphNodePtr n, GraphNodePtr n]"
    by auto
next
  assume "AddNode G i = Inr G1"
  then show "AddNode G1 i = Inl (NodeIDCollision i)" by (rule AddNode_twice)
next
  assume "SetEdge G F T = Inr G2"
  then show "SetEdge G2 F T = Inr G2" by (rule SetEdge_twice)
qed

theorem AddNeighbor_twice_appends_twice_witness:
  "(0::nat) < length two_nodes \<and>
   (\<exists>h1 h2. AddNeighbor two_nodes 0 1 = Inr h1 \<and> AddNeighbor h1 0 1 = Inr h2 \<and>
      elems (Neighbors (h2 ! 0)) = [GraphNodePtr 1, GraphNodePtr 1]) \<and>
   AddNode NewDirectedGraph 7 = Inr \<lparr>dg_nodes = {7}, dg_edges = {}\<rparr> \<and>
   AddNode \<lparr>dg_nodes = {7}, dg_edges = {}\<rparr> 7 = Inl (NodeIDCollision 7) \<and>
   SetEdge NewDirectedGraph (Some 0) (Some 1) = Inr \<lparr>dg_nodes = {0, 1}, dg_edges = {(0, 1)}\<rparr> \<and>
   SetEdge \<lparr>dg_nodes = {0, 1}, dg_edges = {(0, 1)}\<rparr> (Some 0) (Some 1) =
     Inr \<lparr>dg_nodes = {0, 1}, dg_edges = {(0, 1)}\<rparr>"
proof -
  have len: "(0::nat) < length two_nodes" by (simp add: two_nodes_def)
  have add: "AddNode NewDirectedGraph 7 = Inr \<lparr>dg_nodes = {7}, dg_edges = {}\<rparr>"
    by (simp add: AddNode_def NewDirectedGraph_def)
  have set: "SetEdge NewDirectedGraph (Some 0) (Some 1) =
      Inr \<lparr>dg_nodes = {0, 1}, dg_edges = {(0, 1)}\<rparr>"
    by (simp add: SetEdge_def NewDirectedGraph_def insert_commute)
  have nb: "elems (Neighbors (two_nodes ! 0)) = []" by (simp add: two_nodes_def)
  from AddNeighbor_twice_appends_twice[OF len, where n = 1 and G = NewDirectedGraph
      and i = 7 and ?G1.0 = "\<lparr>dg_nodes = {7}, dg_edges = {}\<rparr>" and F = "Some 0"
      and T = "Some 1" and ?G2.0 = "\<lparr>dg_nodes = {0, 1}, dg_edges = {(0, 1)}\<rparr>"]
  show ?thesis using len add set nb by auto
qed

text \<open>
  The claim as stated fails: after the second \<^verbatim>\<open>AddNeighbor\<close> with the same
  neighbour the list of node 0 has two entries, not one.
\<close>

theorem AddNeighbor_twice_counterexample:
  "AddNeighbor two_nodes 0 1 =
     Inr [\<lparr>gn_id = 0, Neighbors = Slice [GraphNodePtr 1]\<rparr>, \<lparr>gn_id = 1, Neighbors = NilSlice\<rparr>] \<and>
   AddNeighbor [\<lparr>gn_id = 0, Neighbors = Slice [GraphNodePtr 1]\<rparr>, \<lparr>gn_id = 1, Neighbors = NilSlice\<rparr>] 0 1 =
     Inr [\<lparr>gn_id = 0, Neighbors = Slice [GraphNodePtr 1, GraphNodePtr 1]\<rparr>,
          \<lparr>gn_id = 1, Neighbors = NilSlice\<rparr>]"
  by (simp add: AddNeighbor_def two_nodes_def deref_def)

subsection \<open>Edge lookup\<close>






































text \<open>
  The search stops at the first anchor. In the same heap node 3 (id 13) has the
  neighbour 1 (id 11), but from the root the search for 13 and 11 meets node 1 first,
  which is an anchor without such a neighbour, and the result is nil.
\<close>

lemma EdgeBetween_stops_at_anchor:
  "has_link chain_back 3 13 11 \<and> EdgeBetween chain_back 0 13 11 = Inr None"
  by (simp add: has_link_def EdgeBetween_def chain_back_def heap_simps)

end
